theory Spec2Isabelle
  imports Main "HOL-Library.Sublist" "HOL-Library.Multiset"
begin

section \<open>Go strings and paths\<close>

text \<open>
  A Go string is a sequence of bytes: \<^typ>\<open>string\<close>. The functions of the packages
  \<open>strings\<close> and \<open>path/filepath\<close> that the analyzers call are written out here after
  the documentation of the Go standard library (Unix paths, separator \<open>/\<close>).
\<close>

text \<open>
  \<open>unicode.IsSpace\<close>: the UTF-8 encodings of the code points with the White_Space
  property (U+0009..U+000D, U+0020, U+0085, U+00A0, U+1680, U+2000..U+200A, U+2028, U+2029,
  U+202F, U+205F, U+3000). No encoding is a prefix of another one, and none begins with a
  continuation byte, so looking for an encoding at a byte position agrees with decoding
  the string rune by rune.
\<close>

definition whiteSpace :: "string list" where
  "whiteSpace =
    [[CHR 0x09], [CHR 0x0A], [CHR 0x0B], [CHR 0x0C], [CHR 0x0D], [CHR 0x20],
     [CHR 0xC2, CHR 0x85], [CHR 0xC2, CHR 0xA0],
     [CHR 0xE1, CHR 0x9A, CHR 0x80],
     [CHR 0xE2, CHR 0x80, CHR 0x80], [CHR 0xE2, CHR 0x80, CHR 0x81],
     [CHR 0xE2, CHR 0x80, CHR 0x82], [CHR 0xE2, CHR 0x80, CHR 0x83],
     [CHR 0xE2, CHR 0x80, CHR 0x84], [CHR 0xE2, CHR 0x80, CHR 0x85],
     [CHR 0xE2, CHR 0x80, CHR 0x86], [CHR 0xE2, CHR 0x80, CHR 0x87],
     [CHR 0xE2, CHR 0x80, CHR 0x88], [CHR 0xE2, CHR 0x80, CHR 0x89],
     [CHR 0xE2, CHR 0x80, CHR 0x8A],
     [CHR 0xE2, CHR 0x80, CHR 0xA8], [CHR 0xE2, CHR 0x80, CHR 0xA9],
     [CHR 0xE2, CHR 0x80, CHR 0xAF],
     [CHR 0xE2, CHR 0x81, CHR 0x9F],
     [CHR 0xE3, CHR 0x80, CHR 0x80]]"

text \<open>The number of bytes of the white-space rune a string starts with; 0 when it starts
  with none.\<close>

definition spaceWidth :: "string \<Rightarrow> nat" where
  "spaceWidth s = (case find (\<lambda>w. prefix w s) whiteSpace of None \<Rightarrow> 0 | Some w \<Rightarrow> length w)"

text \<open>The same, read from the end of the string (\<open>r\<close> is the string reversed).\<close>

definition spaceWidthRev :: "string \<Rightarrow> nat" where
  "spaceWidthRev r = (case find (\<lambda>w. prefix (rev w) r) whiteSpace of None \<Rightarrow> 0 | Some w \<Rightarrow> length w)"

fun trimLeftSpace :: "string \<Rightarrow> string" where
  "trimLeftSpace [] = []"
| "trimLeftSpace (c # s) =
     (case spaceWidth (c # s) of 0 \<Rightarrow> c # s | Suc k \<Rightarrow> trimLeftSpace (drop k s))"

fun trimLeftSpaceRev :: "string \<Rightarrow> string" where
  "trimLeftSpaceRev [] = []"
| "trimLeftSpaceRev (c # s) =
     (case spaceWidthRev (c # s) of 0 \<Rightarrow> c # s | Suc k \<Rightarrow> trimLeftSpaceRev (drop k s))"

definition trimRightSpace :: "string \<Rightarrow> string" where
  "trimRightSpace s = rev (trimLeftSpaceRev (rev s))"

text \<open>\<open>strings.TrimSpace\<close>: all leading and trailing white space removed.\<close>

definition TrimSpace :: "string \<Rightarrow> string" where
  "TrimSpace s = trimRightSpace (trimLeftSpace s)"

text \<open>\<open>strings.Trim(s, cutset)\<close> for a cutset of one-byte characters.\<close>

definition Trim :: "string \<Rightarrow> string \<Rightarrow> string" where
  "Trim s cutset =
     rev (dropWhile (\<lambda>c. c \<in> set cutset) (rev (dropWhile (\<lambda>c. c \<in> set cutset) s)))"

definition HasPrefix :: "string \<Rightarrow> string \<Rightarrow> bool" where
  "HasPrefix s p = prefix p s"

text \<open>\<open>strings.Index\<close>: the position of the first occurrence, \<open>None\<close> for Go's \<open>-1\<close>.\<close>

fun Index :: "string \<Rightarrow> string \<Rightarrow> nat option" where
  "Index [] sub = (if sub = [] then Some 0 else None)"
| "Index (c # s) sub =
     (if prefix sub (c # s) then Some 0 else map_option Suc (Index s sub))"

definition Contains :: "string \<Rightarrow> string \<Rightarrow> bool" where
  "Contains s sub = (Index s sub \<noteq> None)"

text \<open>
  The loop of \<open>strings.genSplit\<close> for a non-empty separator: cut at the first occurrence
  of the separator, at most \<open>n\<close> times, and keep the rest as the last part.
\<close>

fun genSplit :: "string \<Rightarrow> string \<Rightarrow> nat \<Rightarrow> string list" where
  "genSplit s sep 0 = [s]"
| "genSplit s sep (Suc n) =
     (case Index s sep of
        None \<Rightarrow> [s]
      | Some m \<Rightarrow> take m s # genSplit (drop (m + length sep) s) sep n)"

text \<open>
  \<open>strings.Split(s, sep)\<close> cuts at every occurrence (Go allows \<open>Count(s, sep)\<close> cuts; the
  loop stops at the first failed search, and a non-empty separator occurs at most
  \<open>len(s)\<close> times). \<open>strings.SplitN(s, sep, n)\<close> makes at most \<open>n - 1\<close> cuts. Both are used
  with non-empty separators only.
\<close>

definition Split :: "string \<Rightarrow> string \<Rightarrow> string list" where
  "Split s sep = genSplit s sep (length s)"

definition SplitN :: "string \<Rightarrow> string \<Rightarrow> nat \<Rightarrow> string list" where
  "SplitN s sep n = (if n = 0 then [] else genSplit s sep (n - 1))"

text \<open>\<open>strings.Fields\<close>: the maximal runs of bytes that belong to no white-space rune.\<close>

definition flush :: "string \<Rightarrow> string list" where
  "flush cur = (if cur = [] then [] else [cur])"

fun fieldsFrom :: "string \<Rightarrow> string \<Rightarrow> string list" where
  "fieldsFrom cur [] = flush cur"
| "fieldsFrom cur (c # s) =
     (case spaceWidth (c # s) of
        0 \<Rightarrow> fieldsFrom (cur @ [c]) s
      | Suc k \<Rightarrow> flush cur @ fieldsFrom [] (drop k s))"

definition Fields :: "string \<Rightarrow> string list" where
  "Fields s = fieldsFrom [] s"

text \<open>\<open>filepath.Base\<close>: the last element of a path, trailing slashes removed first;
  \<open>.\<close> for the empty path and \<open>/\<close> for a path of slashes only.\<close>

definition Base :: "string \<Rightarrow> string" where
  "Base path =
     (if path = [] then ''.''
      else let p = rev (dropWhile (\<lambda>c. c = CHR ''/'') (rev path));
               e = rev (takeWhile (\<lambda>c. c \<noteq> CHR ''/'') (rev p))
           in if e = [] then ''/'' else e)"

text \<open>\<open>filepath.Join(dir, name)\<close> as \<open>filepath.Walk\<close> uses it, for the name of a directory
  entry. (Go also cleans the result, which leaves its last element as it is.)\<close>

definition Join :: "string \<Rightarrow> string \<Rightarrow> string" where
  "Join dir name = dir @ ''/'' @ name"

section \<open>Component records\<close>

text \<open>
  \<open>sbom.Component\<close> (declared in package \<open>sbom\<close>), with the fields the analyzers set, under
  the names of the struct: \<open>Name\<close>, \<open>Version\<close>, \<open>Supplier\<close>, \<open>PURL\<close>, and the field
  \<open>Description\<close> of its \<open>Metadata\<close>. The struct has more fields, which no analyzer sets
  and which keep their zero values in every record of the pipeline: \<open>License\<close>, \<open>CPE\<close>,
  \<open>Dependencies\<close>, \<open>Hashes\<close>, and in \<open>Metadata\<close> the fields \<open>Author\<close>, \<open>Publisher\<close>,
  \<open>HomepageURL\<close>, \<open>SourceURL\<close>, \<open>LastModified\<close>.
\<close>

record Component =
  Name :: string
  Version :: string
  Supplier :: string
  PURL :: string
  Description :: string

text \<open>
  The errors of the pipeline: a failed system call, the error of \<open>json.Unmarshal\<close>, the
  two sentinels of \<open>filepath.Walk\<close>, the wrapper \<open>directory walk failed: %w\<close> of
  \<open>AnalyzeDir\<close>, and the panic of Go on a nil \<open>os.FileInfo\<close>.
\<close>

datatype error = ErrOS | ErrJSON | SkipDir | SkipAll | ErrWalkFailed error | PanicNil

section \<open>The requirements.txt parser\<close>

text \<open>The body of the loop of \<open>PyPIAnalyzer.Analyze\<close> for one line of the file.\<close>

definition pypiLine :: "string \<Rightarrow> Component list" where
  "pypiLine raw =
     (let line = TrimSpace raw in
      if line = [] \<or> HasPrefix line ''#'' then []
      else
        let parts = Split line ''=='';
            parts = (if length parts < 2 then Split line ''>='' else parts);
            parts = (if length parts < 2 then Split line ''<='' else parts)
        in if length parts \<ge> 2 then
             (let name = TrimSpace (parts ! 0); version = TrimSpace (parts ! 1) in
              [\<lparr>Name = name, Version = version, Supplier = ''pypi'',
                PURL = ''pkg:pypi/'' @ name @ ''@'' @ version, Description = []\<rparr>])
           else [])"


text \<open>The loop of \<open>PyPIAnalyzer.Analyze\<close> over the lines of the file.\<close>

definition pypiParse :: "string \<Rightarrow> Component list" where
  "pypiParse data = concat (map pypiLine (Split data [CHR 0x0A]))"

section \<open>The go.mod parser\<close>

text \<open>The body of the loop of \<open>GoAnalyzer.Analyze\<close> for one line of the file.\<close>

definition goLine :: "string \<Rightarrow> Component list" where
  "goLine raw =
     (let line = TrimSpace raw in
      if HasPrefix line ''require '' \<or> (line \<noteq> [] \<and> Contains line '' '') then
        (let parts = Fields line in
         if length parts \<ge> 2 then
           (let name = TrimSpace (parts ! 0); version = TrimSpace (parts ! 1) in
            [\<lparr>Name = Base name, Version = version, Supplier = ''go'',
              PURL = ''pkg:go/'' @ Base name @ ''@'' @ version, Description = []\<rparr>])
         else [])
      else [])"

definition goParse :: "string \<Rightarrow> Component list" where
  "goParse data = concat (map goLine (Split data [CHR 0x0A]))"

section \<open>The Cargo.toml parser\<close>

text \<open>The Go slice expression \<open>s[i:j]\<close> (for \<open>i \<le> j \<le> len(s)\<close>, as at every use here).\<close>

definition slice :: "string \<Rightarrow> nat \<Rightarrow> nat \<Rightarrow> string" where
  "slice s i j = take (j - i) (drop i s)"

text \<open>
  The body of the loop of \<open>CargoAnalyzer.Analyze\<close> for one line: from the value of
  \<open>inDependencies\<close> before the line to its value after the line, and the records the line
  appends.
\<close>

definition cargoLine :: "bool \<Rightarrow> string \<Rightarrow> bool \<times> Component list" where
  "cargoLine inDependencies raw =
     (let line = TrimSpace raw in
      if HasPrefix line ''[dependencies]'' then (True, [])
      else if HasPrefix line ''['' then (False, [])
      else if inDependencies \<and> line \<noteq> [] \<and> \<not> HasPrefix line ''#'' then
        (let parts = SplitN line ''='' 2 in
         if length parts = 2 then
           (let name = TrimSpace (parts ! 0); versionPart = TrimSpace (parts ! 1) in
            if HasPrefix versionPart ''{'' then
              (case Index versionPart [CHR 0x22] of
                 None \<Rightarrow> (inDependencies, [])
               | Some versionStart \<Rightarrow>
                   (case Index (drop (versionStart + 1) versionPart) [CHR 0x22] of
                      None \<Rightarrow> (inDependencies, [])
                    | Some versionEnd \<Rightarrow>
                        (let version = slice versionPart (versionStart + 1)
                                         (versionStart + versionEnd + 1) in
                         (inDependencies,
                          [\<lparr>Name = name, Version = version, Supplier = ''cargo'',
                            PURL = ''pkg:cargo/'' @ name @ ''@'' @ version,
                            Description = []\<rparr>]))))
            else
              (let version = Trim versionPart [CHR 0x22] in
               (inDependencies,
                [\<lparr>Name = name, Version = version, Supplier = ''cargo'',
                  PURL = ''pkg:cargo/'' @ name @ ''@'' @ version, Description = []\<rparr>])))
         else (inDependencies, []))
      else (inDependencies, []))"

fun cargoLines :: "bool \<Rightarrow> string list \<Rightarrow> Component list" where
  "cargoLines inDependencies [] = []"
| "cargoLines inDependencies (raw # rest) =
     (case cargoLine inDependencies raw of
        (inDependencies', cs) \<Rightarrow> cs @ cargoLines inDependencies' rest)"

definition cargoParse :: "string \<Rightarrow> Component list" where
  "cargoParse data = cargoLines False (Split data [CHR 0x0A])"

section \<open>The pom.xml parser\<close>

definition extractTag :: "string \<Rightarrow> string \<Rightarrow> string" where
  "extractTag line tag =
     (let startTag = ''<'' @ tag @ ''>''; endTag = ''</'' @ tag @ ''>'' in
      case Index line startTag of
        None \<Rightarrow> []
      | Some start0 \<Rightarrow>
          (let start = start0 + length startTag in
           case Index (drop start line) endTag of
             None \<Rightarrow> []
           | Some end \<Rightarrow> slice line start (start + end)))"

text \<open>The body of the loop of \<open>parsePomXML\<close> for one line.\<close>

definition pomLine :: "bool \<Rightarrow> string \<Rightarrow> bool \<times> Component list" where
  "pomLine inDependencies raw =
     (let line = TrimSpace raw in
      if Contains line ''<dependencies>'' then (True, [])
      else if Contains line ''</dependencies>'' then (False, [])
      else if inDependencies then
        (if Contains line ''<artifactId>'' \<and> Contains line ''</artifactId>'' then
           (let artifactId = extractTag line ''artifactId'';
                version = extractTag line ''version'' in
            if artifactId \<noteq> [] \<and> version \<noteq> [] then
              (inDependencies,
               [\<lparr>Name = artifactId, Version = version, Supplier = ''maven'',
                 PURL = ''pkg:maven/'' @ artifactId @ ''@'' @ version, Description = []\<rparr>])
            else (inDependencies, []))
         else (inDependencies, []))
      else (inDependencies, []))"

fun pomLines :: "bool \<Rightarrow> string list \<Rightarrow> Component list" where
  "pomLines inDependencies [] = []"
| "pomLines inDependencies (raw # rest) =
     (case pomLine inDependencies raw of
        (inDependencies', cs) \<Rightarrow> cs @ pomLines inDependencies' rest)"

definition parsePomXML :: "string \<Rightarrow> Component list" where
  "parsePomXML xmlContent = pomLines False (Split xmlContent [CHR 0x0A])"

section \<open>The file system and the Go runtime\<close>

text \<open>
  What the operating system answers for a path: a regular file with its content, a file
  that \<open>os.ReadFile\<close> cannot read, a directory with its entries in the order
  \<open>readDirNames\<close> returns them (sorted by name), a directory that cannot be listed, and a
  path on which \<open>os.Lstat\<close> fails (it does not exist, or its parent gives no access).
\<close>

datatype fsnode =
    File string
  | FileNoRead
  | Dir "(string \<times> fsnode) list"
  | DirNoRead
  | NoStat

record FileInfo =
  fiName :: string
  IsDir :: bool

text \<open>\<open>os.Lstat(path)\<close>; the name of the result is the last element of the path.\<close>

fun Lstat :: "string \<Rightarrow> fsnode \<Rightarrow> error + FileInfo" where
  "Lstat path NoStat = Inl ErrOS"
| "Lstat path (Dir es) = Inr \<lparr>fiName = Base path, IsDir = True\<rparr>"
| "Lstat path DirNoRead = Inr \<lparr>fiName = Base path, IsDir = True\<rparr>"
| "Lstat path (File c) = Inr \<lparr>fiName = Base path, IsDir = False\<rparr>"
| "Lstat path FileNoRead = Inr \<lparr>fiName = Base path, IsDir = False\<rparr>"

text \<open>\<open>os.ReadFile(path)\<close>: reading a directory is an error.\<close>

fun ReadFile :: "fsnode \<Rightarrow> error + string" where
  "ReadFile (File c) = Inr c"
| "ReadFile n = Inl ErrOS"

fun entriesOf :: "fsnode \<Rightarrow> (string \<times> fsnode) list" where
  "entriesOf (Dir es) = es"
| "entriesOf n = []"

fun readDirNames :: "fsnode \<Rightarrow> error + string list" where
  "readDirNames (Dir es) = Inr (map fst es)"
| "readDirNames n = Inl ErrOS"

text \<open>
  The struct that \<open>NPMAnalyzer.Analyze\<close> decodes a package.json into. A Go map is kept as
  the list of its entries, with pairwise distinct keys.
\<close>

record PackageJSON =
  pkgName :: string
  pkgVersion :: string
  Dependencies :: "(string \<times> string) list"
  DevDeps :: "(string \<times> string) list"

text \<open>
  What the analyzers take from the Go runtime and library without fixing it themselves:
  the decoder \<open>json.Unmarshal\<close> into the struct above, and the order in which a \<open>range\<close>
  loop visits the entries of a map, which Go leaves unspecified: one run of the program
  may differ from the next.
\<close>

record GoRuntime =
  Unmarshal :: "string \<Rightarrow> error + PackageJSON"
  mapRange :: "(string \<times> string) list \<Rightarrow> (string \<times> string) list"

section \<open>The package.json parser\<close>

definition npmDep :: "string \<times> string \<Rightarrow> Component" where
  "npmDep e = (case e of (name, version) \<Rightarrow>
     \<lparr>Name = name, Version = version, Supplier = ''npm'',
      PURL = ''pkg:npm/'' @ name @ ''@'' @ version, Description = []\<rparr>)"

definition npmDevDep :: "string \<times> string \<Rightarrow> Component" where
  "npmDevDep e = (case e of (name, version) \<Rightarrow>
     \<lparr>Name = name, Version = version, Supplier = ''npm'',
      PURL = ''pkg:npm/'' @ name @ ''@'' @ version,
      Description = ''development dependency''\<rparr>)"

definition npmAnalyze :: "GoRuntime \<Rightarrow> fsnode \<Rightarrow> error + Component list" where
  "npmAnalyze rt node =
     (case ReadFile node of
        Inl err \<Rightarrow> Inl err
      | Inr data \<Rightarrow>
          (case Unmarshal rt data of
             Inl err \<Rightarrow> Inl err
           | Inr pkg \<Rightarrow>
               Inr (map npmDep (mapRange rt (Dependencies pkg)) @
                    map npmDevDep (mapRange rt (DevDeps pkg)))))"

section \<open>The analyzers and the directory walk\<close>

datatype Analyzer = NPMAnalyzer | PyPIAnalyzer | GoAnalyzer | CargoAnalyzer | MavenAnalyzer

fun analyzerName :: "Analyzer \<Rightarrow> string" where
  "analyzerName NPMAnalyzer = ''npm''"
| "analyzerName PyPIAnalyzer = ''pypi''"
| "analyzerName GoAnalyzer = ''go''"
| "analyzerName CargoAnalyzer = ''cargo''"
| "analyzerName MavenAnalyzer = ''maven''"

fun ShouldAnalyze :: "Analyzer \<Rightarrow> string \<Rightarrow> bool" where
  "ShouldAnalyze NPMAnalyzer path = (Base path = ''package.json'')"
| "ShouldAnalyze PyPIAnalyzer path = (Base path = ''requirements.txt'')"
| "ShouldAnalyze GoAnalyzer path = (Base path = ''go.mod'')"
| "ShouldAnalyze CargoAnalyzer path = (Base path = ''Cargo.toml'')"
| "ShouldAnalyze MavenAnalyzer path = (Base path = ''pom.xml'')"

text \<open>\<open>Analyze(path)\<close>; the second argument is what the file system holds at the path.\<close>

fun Analyze :: "GoRuntime \<Rightarrow> Analyzer \<Rightarrow> fsnode \<Rightarrow> error + Component list" where
  "Analyze rt NPMAnalyzer node = npmAnalyze rt node"
| "Analyze rt PyPIAnalyzer node =
     (case ReadFile node of Inl err \<Rightarrow> Inl err | Inr data \<Rightarrow> Inr (pypiParse data))"
| "Analyze rt GoAnalyzer node =
     (case ReadFile node of Inl err \<Rightarrow> Inl err | Inr data \<Rightarrow> Inr (goParse data))"
| "Analyze rt CargoAnalyzer node =
     (case ReadFile node of Inl err \<Rightarrow> Inl err | Inr data \<Rightarrow> Inr (cargoParse data))"
| "Analyze rt MavenAnalyzer node =
     (case ReadFile node of Inl err \<Rightarrow> Inl err | Inr data \<Rightarrow> Inr (parsePomXML data))"

definition NewProjectAnalyzer :: "Analyzer list" where
  "NewProjectAnalyzer = [NPMAnalyzer, PyPIAnalyzer, GoAnalyzer, CargoAnalyzer, MavenAnalyzer]"

text \<open>The loop over the analyzers in the callback of \<open>AnalyzeDir\<close>; \<open>allComponents\<close> is
  passed in and returned.\<close>

fun runAnalyzers ::
  "GoRuntime \<Rightarrow> Analyzer list \<Rightarrow> string \<Rightarrow> fsnode \<Rightarrow> Component list \<Rightarrow> Component list" where
  "runAnalyzers rt [] path node allComponents = allComponents"
| "runAnalyzers rt (analyzer # rest) path node allComponents =
     (if ShouldAnalyze analyzer path then
        (case Analyze rt analyzer node of
           Inl err \<Rightarrow> runAnalyzers rt rest path node allComponents
         | Inr components \<Rightarrow> runAnalyzers rt rest path node (allComponents @ components))
      else runAnalyzers rt rest path node allComponents)"

definition skippedDirs :: "string list" where
  "skippedDirs = [''node_modules'', ''vendor'', ''.git'', ''dist'', ''build'']"

text \<open>The callback that \<open>AnalyzeDir\<close> hands to \<open>filepath.Walk\<close>.\<close>

definition walkFn ::
  "GoRuntime \<Rightarrow> Analyzer list \<Rightarrow> string \<Rightarrow> fsnode \<Rightarrow> FileInfo option \<Rightarrow> error option \<Rightarrow>
     Component list \<Rightarrow> Component list \<times> error option" where
  "walkFn rt analyzers path node info err allComponents =
     (if err \<noteq> None then (allComponents, None)
      else case info of
        None \<Rightarrow> (allComponents, Some PanicNil)
      | Some fi \<Rightarrow>
          if IsDir fi \<and> fiName fi \<in> set skippedDirs then (allComponents, Some SkipDir)
          else (runAnalyzers rt analyzers path node allComponents, None))"

text \<open>
  \<open>filepath.walk\<close> and its loop over the names of a directory, for a callback that
  carries a state of type \<open>'a\<close>.
\<close>

type_synonym 'a WalkFunc =
  "string \<Rightarrow> fsnode \<Rightarrow> FileInfo option \<Rightarrow> error option \<Rightarrow> 'a \<Rightarrow> 'a \<times> error option"

function walk :: "'a WalkFunc \<Rightarrow> string \<Rightarrow> fsnode \<Rightarrow> FileInfo \<Rightarrow> 'a \<Rightarrow> 'a \<times> error option"
  and walkNames :: "'a WalkFunc \<Rightarrow> string \<Rightarrow> (string \<times> fsnode) list \<Rightarrow> 'a \<Rightarrow> 'a \<times> error option"
where
  "walk fn path node info st =
     (if \<not> IsDir info then fn path node (Some info) None st
      else
        (let err = (case readDirNames node of Inl e \<Rightarrow> Some e | Inr names \<Rightarrow> None) in
         case fn path node (Some info) err st of
           (st1, err1) \<Rightarrow>
             if err \<noteq> None \<or> err1 \<noteq> None then (st1, err1)
             else walkNames fn path (entriesOf node) st1))"
| "walkNames fn path [] st = (st, None)"
| "walkNames fn path ((name, child) # rest) st =
     (let filename = Join path name in
      case Lstat filename child of
        Inl err \<Rightarrow>
          (case fn filename child None (Some err) st of
             (st1, Some err1) \<Rightarrow>
               if err1 \<noteq> SkipDir then (st1, Some err1) else walkNames fn path rest st1
           | (st1, None) \<Rightarrow> walkNames fn path rest st1)
      | Inr fileInfo \<Rightarrow>
          (case walk fn filename child fileInfo st of
             (st1, Some err1) \<Rightarrow>
               if \<not> IsDir fileInfo \<or> err1 \<noteq> SkipDir then (st1, Some err1)
               else walkNames fn path rest st1
           | (st1, None) \<Rightarrow> walkNames fn path rest st1))"
  by pat_completeness auto

termination walk
proof (relation "measure (\<lambda>x. case x of
          Inl (fn, path, node, info, st) \<Rightarrow> 2 * size node + 1
        | Inr (fn, path, es, st) \<Rightarrow> 2 * size_list (size_prod (\<lambda>x. 0) size) es)")
  fix fn :: "'a WalkFunc" and path :: string and node :: fsnode and info :: FileInfo
    and st xa :: 'a
  show "(Inr (fn, path, entriesOf node, xa), Inl (fn, path, node, info, st))
          \<in> measure (\<lambda>x. case x of
                Inl (fn, path, node, info, st) \<Rightarrow> 2 * size node + 1
              | Inr (fn, path, es, st) \<Rightarrow> 2 * size_list (size_prod (\<lambda>x. 0) size) es)"
    by (cases node) simp_all
qed auto

text \<open>\<open>filepath.Walk\<close>: the root is passed to the callback alone when \<open>os.Lstat\<close> fails on
  it; \<open>SkipDir\<close> and \<open>SkipAll\<close> from the walk are not errors.\<close>

definition Walk :: "'a WalkFunc \<Rightarrow> string \<Rightarrow> fsnode \<Rightarrow> 'a \<Rightarrow> 'a \<times> error option" where
  "Walk fn root node st =
     (case (case Lstat root node of
              Inl err \<Rightarrow> fn root node None (Some err) st
            | Inr info \<Rightarrow> walk fn root node info st) of
        (st1, err) \<Rightarrow>
          if err = Some SkipDir \<or> err = Some SkipAll then (st1, None) else (st1, err))"

text \<open>\<open>ProjectAnalyzer.AnalyzeDir(dir)\<close> on the file system that holds \<open>node\<close> at \<open>dir\<close>.\<close>

definition AnalyzeDir :: "GoRuntime \<Rightarrow> string \<Rightarrow> fsnode \<Rightarrow> Component list \<times> error option" where
  "AnalyzeDir rt dir node =
     (case Walk (walkFn rt NewProjectAnalyzer) dir node [] of
        (allComponents, Some err) \<Rightarrow> ([], Some (ErrWalkFailed err))
      | (allComponents, None) \<Rightarrow> (allComponents, None))"

declare walk.simps [simp del]

section \<open>What the walk collects\<close>

text \<open>The records that the callback adds at one path.\<close>

definition dispatch :: "GoRuntime \<Rightarrow> string \<Rightarrow> fsnode \<Rightarrow> Component list" where
  "dispatch rt path node = runAnalyzers rt NewProjectAnalyzer path node []"

text \<open>
  The records of a whole walk, written without the error plumbing of \<open>filepath.Walk\<close>;
  \<open>AnalyzeDir_visit\<close> below proves that \<open>AnalyzeDir\<close> returns exactly these.
\<close>

fun visit :: "GoRuntime \<Rightarrow> string \<Rightarrow> fsnode \<Rightarrow> Component list"
  and visitEntries :: "GoRuntime \<Rightarrow> string \<Rightarrow> (string \<times> fsnode) list \<Rightarrow> Component list"
where
  "visit rt path (File c) = dispatch rt path (File c)"
| "visit rt path FileNoRead = dispatch rt path FileNoRead"
| "visit rt path (Dir es) =
     (if Base path \<in> set skippedDirs then []
      else dispatch rt path (Dir es) @ visitEntries rt path es)"
| "visit rt path DirNoRead = []"
| "visit rt path NoStat = []"
| "visitEntries rt path [] = []"
| "visitEntries rt path ((name, child) # rest) =
     visit rt (Join path name) child @ visitEntries rt path rest"

text \<open>
  Two trees that are the same outside every directory named in \<open>skippedDirs\<close>: they may
  differ in what such directories contain, at any depth, and in nothing else. The first
  argument is the name under which the tree is entered in its parent.
\<close>

fun sameOutside :: "string \<Rightarrow> fsnode \<Rightarrow> fsnode \<Rightarrow> bool"
  and sameOutsideEntries :: "(string \<times> fsnode) list \<Rightarrow> (string \<times> fsnode) list \<Rightarrow> bool"
where
  "sameOutside name (Dir es) (Dir es') =
     (name \<in> set skippedDirs \<or> sameOutsideEntries es es')"
| "sameOutside name (File c) t = (t = File c)"
| "sameOutside name FileNoRead t = (t = FileNoRead)"
| "sameOutside name DirNoRead t = (t = DirNoRead)"
| "sameOutside name NoStat t = (t = NoStat)"
| "sameOutside name (Dir es) t = False"
| "sameOutsideEntries [] es' = (es' = [])"
| "sameOutsideEntries ((n, c) # r) [] = False"
| "sameOutsideEntries ((n, c) # r) ((n', c') # r') =
     (n = n' \<and> sameOutside n c c' \<and> sameOutsideEntries r r')"

text \<open>The node found by following a list of entry names down from a node.\<close>

fun subtree :: "fsnode \<Rightarrow> string list \<Rightarrow> fsnode option" where
  "subtree node [] = Some node"
| "subtree (Dir es) (n # ns) =
     (case map_of es n of None \<Rightarrow> None | Some child \<Rightarrow> subtree child ns)"
| "subtree node (n # ns) = None"

text \<open>The paths of the directories passed on the way from \<open>p\<close> down along the entry
  names \<open>ns\<close>; the path reached at the end is \<open>foldl Join p ns\<close>.\<close>

fun dirsOnPath :: "string \<Rightarrow> string list \<Rightarrow> string list" where
  "dirsOnPath p [] = []"
| "dirsOnPath p (n # ns) = p # dirsOnPath (Join p n) ns"

text \<open>The canonical package URL of a record of one ecosystem.\<close>

definition canonical :: "string \<Rightarrow> Component \<Rightarrow> bool" where
  "canonical eco c =
     (Supplier c = eco \<and> PURL c = ''pkg:'' @ Supplier c @ ''/'' @ Name c @ ''@'' @ Version c)"

definition wellFormed :: "Component \<Rightarrow> bool" where
  "wellFormed c =
     (Supplier c \<in> set (map analyzerName NewProjectAnalyzer)
      \<and> PURL c = ''pkg:'' @ Supplier c @ ''/'' @ Name c @ ''@'' @ Version c)"

section \<open>The records the line parsers emit\<close>

text \<open>The operator a requirements.txt line is split on: the first of \<open>==\<close>, \<open>>=\<close>, \<open><=\<close>
  (in this order) that occurs in the line.\<close>

definition firstOperator :: "string \<Rightarrow> string option" where
  "firstOperator line = find (Contains line) [''=='', ''>='', ''<='']"

text \<open>The text of \<open>s\<close> before the first occurrence of \<open>sep\<close>; all of \<open>s\<close> when there is none.\<close>

definition upTo :: "string \<Rightarrow> string \<Rightarrow> string" where
  "upTo sep s = (case Index s sep of None \<Rightarrow> s | Some j \<Rightarrow> take j s)"

text \<open>The record for a line split at position \<open>i\<close> on the operator \<open>op\<close>: the name is the
  text before the operator, the version the text from the operator up to its next
  occurrence, both trimmed.\<close>

definition pypiRecord :: "string \<Rightarrow> string \<Rightarrow> nat \<Rightarrow> Component" where
  "pypiRecord line op i =
     \<lparr>Name = TrimSpace (take i line),
      Version = TrimSpace (upTo op (drop (i + length op) line)),
      Supplier = ''pypi'',
      PURL = ''pkg:pypi/'' @ TrimSpace (take i line) @ ''@''
               @ TrimSpace (upTo op (drop (i + length op) line)),
      Description = []\<rparr>"

definition cargoRecord :: "string \<Rightarrow> string \<Rightarrow> Component" where
  "cargoRecord name version =
     \<lparr>Name = name, Version = version, Supplier = ''cargo'',
      PURL = ''pkg:cargo/'' @ name @ ''@'' @ version, Description = []\<rparr>"

definition pomRecord :: "string \<Rightarrow> string \<Rightarrow> Component" where
  "pomRecord artifactId version =
     \<lparr>Name = artifactId, Version = version, Supplier = ''maven'',
      PURL = ''pkg:maven/'' @ artifactId @ ''@'' @ version, Description = []\<rparr>"

definition goRecord :: "string \<Rightarrow> string \<Rightarrow> Component" where
  "goRecord name version =
     \<lparr>Name = name, Version = version, Supplier = ''go'',
      PURL = ''pkg:go/'' @ name @ ''@'' @ version, Description = []\<rparr>"

text \<open>A string that neither starts nor ends with a white-space rune.\<close>

definition spaceFree :: "string \<Rightarrow> bool" where
  "spaceFree f = (\<forall>w \<in> set whiteSpace. \<not> prefix w f \<and> \<not> suffix w f)"



section \<open>Example inputs\<close>

text \<open>
  A package.json text and the struct \<open>json.Unmarshal\<close> decodes it into; two runtimes whose
  decoder knows this text and rejects the malformed texts of the examples, and whose
  \<open>range\<close> loops visit the entries of a map in one order or in the opposite one; a
  directory tree with requirements.txt files inside and outside skipped directories.
\<close>

definition demoJSON :: string where
  \<open>demoJSON = ''{"dependencies":{"express":"^4.18.0","lodash":"~4.17.0"},"devDependencies":{"jest":"^29.0.0"}}''\<close>

definition demoPackage :: PackageJSON where
  "demoPackage = \<lparr>pkgName = [], pkgVersion = [],
     Dependencies = [(''express'', ''^4.18.0''), (''lodash'', ''~4.17.0'')],
     DevDeps = [(''jest'', ''^29.0.0'')]\<rparr>"

definition demoRuntime :: "bool \<Rightarrow> GoRuntime" where
  "demoRuntime backwards =
     \<lparr>Unmarshal = (\<lambda>data. if data = demoJSON then Inr demoPackage else Inl ErrJSON),
      mapRange = (if backwards then rev else id)\<rparr>"


definition demoTree :: "string \<Rightarrow> fsnode" where
  "demoTree hidden =
     Dir [(''node_modules'', Dir [(''requirements.txt'', File hidden)]),
          (''requirements.txt'', File ''flask==2.2.0''),
          (''sub'', Dir [(''requirements.txt'', File ''requests>=2.28.0''),
                         (''vendor'', Dir [(''lib'', Dir [(''requirements.txt'', File hidden)])])])]"

text \<open>A pom.xml in the usual layout, one tag per line, and one with \<open>artifactId\<close> and
  \<open>version\<close> on the same line.\<close>

definition demoPom :: string where
  \<open>demoPom =
     ''<?xml version="1.0" encoding="UTF-8"?>'' @ [CHR 0x0A] @
     ''<project>'' @ [CHR 0x0A] @
     ''  <dependencies>'' @ [CHR 0x0A] @
     ''    <dependency>'' @ [CHR 0x0A] @
     ''      <groupId>com.google.guava</groupId>'' @ [CHR 0x0A] @
     ''      <artifactId>guava</artifactId>'' @ [CHR 0x0A] @
     ''      <version>31.1-jre</version>'' @ [CHR 0x0A] @
     ''    </dependency>'' @ [CHR 0x0A] @
     ''  </dependencies>'' @ [CHR 0x0A] @
     ''</project>''\<close>

definition demoPomSameLine :: string where
  "demoPomSameLine =
     ''<dependencies>'' @ [CHR 0x0A] @
     ''  <artifactId>guava</artifactId><version>31.1-jre</version>'' @ [CHR 0x0A] @
     ''</dependencies>''"

section \<open>Properties of the walk\<close>

lemma runAnalyzers_append:
  "runAnalyzers rt as path node acc = acc @ runAnalyzers rt as path node []"
proof (induction as arbitrary: acc)
  case Nil
  show ?case by simp
next
  case (Cons a as)
  show ?case
  proof (cases "ShouldAnalyze a path")
    case False
    then show ?thesis using Cons.IH [of acc] by simp
  next
    case True
    show ?thesis
    proof (cases "Analyze rt a node")
      case (Inl e)
      then show ?thesis using True Cons.IH [of acc] by simp
    next
      case (Inr cs)
      then show ?thesis
        using True Cons.IH [of "acc @ cs"] Cons.IH [of cs] by simp
    qed
  qed
qed

lemma walkFn_dispatch:
  "walkFn rt NewProjectAnalyzer path node (Some fi) None acc =
     (if IsDir fi \<and> fiName fi \<in> set skippedDirs then (acc, Some SkipDir)
      else (acc @ dispatch rt path node, None))"
  using runAnalyzers_append [of rt NewProjectAnalyzer path node acc]
  by (simp add: walkFn_def dispatch_def)

lemma walkFn_err: "walkFn rt as path node info (Some e) acc = (acc, None)"
  by (simp add: walkFn_def)

lemma walk_visit:
  "Lstat path node = Inr info \<Longrightarrow>
     walk (walkFn rt NewProjectAnalyzer) path node info acc =
       (acc @ visit rt path node,
        if (\<exists>es. node = Dir es) \<and> Base path \<in> set skippedDirs then Some SkipDir else None)"
  and walkNames_visit:
  "walkNames (walkFn rt NewProjectAnalyzer) path es acc = (acc @ visitEntries rt path es, None)"
proof (induction "walkFn rt NewProjectAnalyzer" path node info acc
         and "walkFn rt NewProjectAnalyzer" path es acc
       rule: walk_walkNames.induct)
  case (1 path node info st)
  show ?case
  proof (cases node)
    case (Dir es0)
    with 1 show ?thesis
      by (cases "Base path \<in> set skippedDirs") (auto simp: walkFn_dispatch walk.simps)
  qed (use 1 in \<open>auto simp: walkFn_dispatch walkFn_err walk.simps\<close>)
next
  case (2 path st)
  then show ?case by simp
next
  case (3 path name child rest st)
  show ?case
  proof (cases child)
    case NoStat
    with 3 show ?thesis by (simp add: walkFn_err)
  next
    case (Dir es0)
    with 3 show ?thesis by (auto simp: Let_def)
  qed (use 3 in \<open>auto simp: Let_def\<close>)
qed

lemma AnalyzeDir_visit: "AnalyzeDir rt dir node = (visit rt dir node, None)"
proof (cases "Lstat dir node")
  case (Inl e)
  then have "node = NoStat" by (cases node) simp_all
  then show ?thesis by (simp add: AnalyzeDir_def Walk_def walkFn_err)
next
  case (Inr info)
  then show ?thesis
    by (simp add: AnalyzeDir_def Walk_def walk_visit [of dir node info rt "[]"])
qed

text \<open>
  C1. The claim: \<open>AnalyzeDir\<close> returns a non-nil error exactly when the walk cannot start
  (the root does not exist or cannot be read). The code never does: when \<open>os.Lstat\<close> fails
  on the root, \<open>filepath.Walk\<close> hands that error to the callback, the callback answers
  nil as it does for every error, and \<open>AnalyzeDir\<close> returns no records and a nil error.
  The same holds for every content of the root: the error of \<open>AnalyzeDir\<close> is nil.
\<close>

theorem AnalyzeDir_missing_root_no_error:
  "AnalyzeDir rt dir NoStat = ([], None) \<and> snd (AnalyzeDir rt dir node) = None"
proof
  show "AnalyzeDir rt dir NoStat = ([], None)"
    by (simp add: AnalyzeDir_def Walk_def walkFn_err)
  show "snd (AnalyzeDir rt dir node) = None"
    by (simp add: AnalyzeDir_visit)
qed

lemma Analyze_noread: "ReadFile node = Inl e \<Longrightarrow> Analyze rt a node = Inl e"
  by (cases a) (simp_all add: npmAnalyze_def)

lemma runAnalyzers_noread:
  "ReadFile node = Inl e \<Longrightarrow> runAnalyzers rt as path node acc = acc"
  by (induction as) (simp_all add: Analyze_noread)

lemma manifest_not_skipped: "ShouldAnalyze a path \<Longrightarrow> Base path \<notin> set skippedDirs"
  by (cases a) (simp_all add: skippedDirs_def)


text \<open>
  C10. The callback runs the analyzers on every path it is given without an error and
  does not skip, whatever the path is: a file or a directory (first part, for every
  list of analyzers, every node and every \<open>os.FileInfo\<close>). An analyzer that matches the
  path is called, and its error makes the loop go on with the accumulated records
  unchanged (second part). For a directory that can be listed and whose path has the
  base name of a manifest: the matching analyzer returns the read error, the callback
  runs the analyzers, adds no record and returns nil (such a name is not a skipped
  one), the walk goes on into the entries of the directory and then, in the parent, to
  the entries after it, and \<open>AnalyzeDir\<close> returns a nil error. A directory with such a
  name that cannot be listed reaches the callback with its error, adds no record
  either, and the walk continues.
\<close>

theorem directory_named_as_manifest:
  assumes "ShouldAnalyze a path"
  shows "(\<not> (IsDir fi \<and> fiName fi \<in> set skippedDirs) \<longrightarrow>
           walkFn rt analyzers path node (Some fi) None acc
             = (runAnalyzers rt analyzers path node acc, None))
    \<and> runAnalyzers rt (a # others) path node acc
        = (case Analyze rt a node of
             Inl err \<Rightarrow> runAnalyzers rt others path node acc
           | Inr components \<Rightarrow> runAnalyzers rt others path node (acc @ components))
    \<and> Analyze rt a (Dir es) = Inl ErrOS
    \<and> runAnalyzers rt (a # others) path (Dir es) acc = runAnalyzers rt others path (Dir es) acc
    \<and> walkFn rt NewProjectAnalyzer path (Dir es)
         (Some \<lparr>fiName = Base path, IsDir = True\<rparr>) None acc
        = (runAnalyzers rt NewProjectAnalyzer path (Dir es) acc, None)
    \<and> walkFn rt NewProjectAnalyzer path (Dir es)
         (Some \<lparr>fiName = Base path, IsDir = True\<rparr>) None acc = (acc, None)
    \<and> walk (walkFn rt NewProjectAnalyzer) path (Dir es)
         \<lparr>fiName = Base path, IsDir = True\<rparr> acc
       = walkNames (walkFn rt NewProjectAnalyzer) path es acc
    \<and> (path = Join parent name \<longrightarrow>
         walkNames (walkFn rt NewProjectAnalyzer) parent ((name, Dir es) # rest) acc
           = walkNames (walkFn rt NewProjectAnalyzer) parent rest
               (fst (walkNames (walkFn rt NewProjectAnalyzer) path es acc)))
    \<and> walk (walkFn rt NewProjectAnalyzer) path DirNoRead
         \<lparr>fiName = Base path, IsDir = True\<rparr> acc = (acc, None)
    \<and> snd (AnalyzeDir rt path (Dir es)) = None"
proof -
  let ?fn = "walkFn rt NewProjectAnalyzer"
  have 7: "\<not> (IsDir fi \<and> fiName fi \<in> set skippedDirs) \<longrightarrow>
           walkFn rt analyzers path node (Some fi) None acc
             = (runAnalyzers rt analyzers path node acc, None)"
    by (simp add: walkFn_def)
  have 8: "runAnalyzers rt (a # others) path node acc
        = (case Analyze rt a node of
             Inl err \<Rightarrow> runAnalyzers rt others path node acc
           | Inr components \<Rightarrow> runAnalyzers rt others path node (acc @ components))"
    using assms by simp
  have 1: "Analyze rt a (Dir es) = Inl ErrOS"
    by (simp add: Analyze_noread)
  have 9: "runAnalyzers rt (a # others) path (Dir es) acc
             = runAnalyzers rt others path (Dir es) acc"
    using assms 1 by simp
  have 2: "?fn path (Dir es) (Some \<lparr>fiName = Base path, IsDir = True\<rparr>) None acc = (acc, None)"
    using manifest_not_skipped [OF assms]
    by (simp add: walkFn_def runAnalyzers_noread)
  have 10: "?fn path (Dir es) (Some \<lparr>fiName = Base path, IsDir = True\<rparr>) None acc
        = (runAnalyzers rt NewProjectAnalyzer path (Dir es) acc, None)"
    using manifest_not_skipped [OF assms] by (simp add: walkFn_def)
  have 6: "walk ?fn path DirNoRead \<lparr>fiName = Base path, IsDir = True\<rparr> acc = (acc, None)"
    by (simp add: walk.simps walkFn_err)
  have 3: "walk ?fn path (Dir es) \<lparr>fiName = Base path, IsDir = True\<rparr> acc
       = walkNames ?fn path es acc"
    by (simp add: walk.simps 2)
  have 4: "path = Join parent name \<longrightarrow>
         walkNames ?fn parent ((name, Dir es) # rest) acc
           = walkNames ?fn parent rest (fst (walkNames ?fn path es acc))"
  proof
    assume p: "path = Join parent name"
    have "walk ?fn (Join parent name) (Dir es)
            \<lparr>fiName = Base (Join parent name), IsDir = True\<rparr> acc
          = (acc @ visitEntries rt (Join parent name) es, None)"
      using 3 p by (simp add: walkNames_visit)
    then show "walkNames ?fn parent ((name, Dir es) # rest) acc
           = walkNames ?fn parent rest (fst (walkNames ?fn path es acc))"
      using p by (simp add: walkNames_visit)
  qed
  have 5: "snd (AnalyzeDir rt path (Dir es)) = None"
    by (simp add: AnalyzeDir_visit)
  from 1 2 3 4 5 6 7 8 9 10 show ?thesis by blast
qed

theorem directory_named_as_manifest_witness:
  "ShouldAnalyze NPMAnalyzer (Join ''/srv/app'' ''package.json'')
   \<and> walkFn (demoRuntime False) [NPMAnalyzer] (Join ''/srv/app'' ''package.json'')
        (File demoJSON) (Some \<lparr>fiName = ''package.json'', IsDir = True\<rparr>) None []
      = (runAnalyzers (demoRuntime False) [NPMAnalyzer] (Join ''/srv/app'' ''package.json'')
           (File demoJSON) [], None)
   \<and> map Name (runAnalyzers (demoRuntime False) [NPMAnalyzer]
        (Join ''/srv/app'' ''package.json'') (File demoJSON) [])
      = [''express'', ''lodash'', ''jest'']
   \<and> Analyze (demoRuntime False) NPMAnalyzer (Dir [(''requirements.txt'', File ''flask==2.2.0'')])
       = Inl ErrOS
   \<and> walkFn (demoRuntime False) NewProjectAnalyzer (Join ''/srv/app'' ''package.json'')
        (Dir [(''requirements.txt'', File ''flask==2.2.0'')])
        (Some \<lparr>fiName = Base (Join ''/srv/app'' ''package.json''), IsDir = True\<rparr>) None []
      = (runAnalyzers (demoRuntime False) NewProjectAnalyzer (Join ''/srv/app'' ''package.json'')
           (Dir [(''requirements.txt'', File ''flask==2.2.0'')]) [], None)
   \<and> walkNames (walkFn (demoRuntime False) NewProjectAnalyzer) ''/srv/app''
        [(''package.json'', Dir [(''requirements.txt'', File ''flask==2.2.0'')]),
         (''requirements.txt'', File ''requests>=2.28.0'')] []
      = walkNames (walkFn (demoRuntime False) NewProjectAnalyzer) ''/srv/app''
          [(''requirements.txt'', File ''requests>=2.28.0'')]
          (fst (walkNames (walkFn (demoRuntime False) NewProjectAnalyzer)
                  (Join ''/srv/app'' ''package.json'')
                  [(''requirements.txt'', File ''flask==2.2.0'')] []))
   \<and> map Name (fst (AnalyzeDir (demoRuntime False) ''/srv/app''
        (Dir [(''package.json'', Dir [(''requirements.txt'', File ''flask==2.2.0'')]),
              (''requirements.txt'', File ''requests>=2.28.0'')])))
      = [''flask'', ''requests'']"
proof -
  let ?p = "Join ''/srv/app'' ''package.json''"
  let ?es = "[(''requirements.txt'', File ''flask==2.2.0'')]"
  have h: "ShouldAnalyze NPMAnalyzer ?p"
    by code_simp
  have d: "\<not> (IsDir \<lparr>fiName = ''package.json'', IsDir = True\<rparr>
              \<and> fiName \<lparr>fiName = ''package.json'', IsDir = True\<rparr> \<in> set skippedDirs)"
    by code_simp
  from directory_named_as_manifest [OF h, where fi = "\<lparr>fiName = ''package.json'', IsDir = True\<rparr>"
      and rt = "demoRuntime False" and analyzers = "[NPMAnalyzer]" and node = "File demoJSON"
      and acc = "[]"] d
  have 1: "walkFn (demoRuntime False) [NPMAnalyzer] ?p (File demoJSON)
        (Some \<lparr>fiName = ''package.json'', IsDir = True\<rparr>) None []
      = (runAnalyzers (demoRuntime False) [NPMAnalyzer] ?p (File demoJSON) [], None)"
    by blast
  have 2: "map Name (runAnalyzers (demoRuntime False) [NPMAnalyzer] ?p (File demoJSON) [])
      = [''express'', ''lodash'', ''jest'']"
    by code_simp
  have r: "map Name (fst (AnalyzeDir (demoRuntime False) ''/srv/app''
        (Dir [(''package.json'', Dir ?es),
              (''requirements.txt'', File ''requests>=2.28.0'')])))
      = [''flask'', ''requests'']"
    by code_simp
  from directory_named_as_manifest [OF h, where rt = "demoRuntime False" and es = ?es
      and acc = "[]" and parent = "''/srv/app''" and name = "''package.json''"
      and rest = "[(''requirements.txt'', File ''requests>=2.28.0'')]"] h r 1 2
  show ?thesis by blast
qed

lemma takeWhile_upto:
  "c \<notin> set xs \<Longrightarrow> takeWhile (\<lambda>x. x \<noteq> c) (xs @ c # ys) = xs"
  by (induction xs) auto

lemma Base_Join:
  assumes "name \<noteq> []" and "CHR ''/'' \<notin> set name"
  shows "Base (Join p name) = name"
proof -
  have hd: "hd (rev name) \<noteq> CHR ''/''"
    using assms by (metis hd_rev last_in_set)
  have 1: "dropWhile (\<lambda>c. c = CHR ''/'') (rev name @ CHR ''/'' # rev p) = rev name @ CHR ''/'' # rev p"
    using assms hd by (cases "rev name") auto
  have 2: "takeWhile (\<lambda>c. c \<noteq> CHR ''/'') (rev name @ CHR ''/'' # rev p) = rev name"
    using assms by (simp add: takeWhile_upto)
  show ?thesis
    using assms 1 2 by (simp add: Base_def Join_def)
qed

lemma Base_Join_skipped:
  "name \<in> set skippedDirs \<Longrightarrow> Base (Join p name) \<in> set skippedDirs"
proof -
  assume a: "name \<in> set skippedDirs"
  then have "name \<noteq> [] \<and> CHR ''/'' \<notin> set name"
    by (auto simp: skippedDirs_def)
  then show ?thesis using a by (simp add: Base_Join)
qed

lemma dispatch_noread: "ReadFile node = Inl e \<Longrightarrow> dispatch rt path node = []"
  by (simp add: dispatch_def runAnalyzers_noread)

lemma visit_Dir:
  "visit rt path (Dir es) =
     (if Base path \<in> set skippedDirs then [] else visitEntries rt path es)"
  by (simp add: dispatch_noread)

lemma sameOutside_visit:
  "sameOutside name t t' \<Longrightarrow> (name \<in> set skippedDirs \<longrightarrow> Base p \<in> set skippedDirs) \<Longrightarrow>
     visit rt p t = visit rt p t'"
  and sameOutsideEntries_visit:
  "sameOutsideEntries es es' \<Longrightarrow> visitEntries rt p es = visitEntries rt p es'"
proof (induction name t t' and es es' arbitrary: p and p
       rule: sameOutside_sameOutsideEntries.induct)
  case (1 name es es')
  then show ?case by (auto simp: visit_Dir simp del: visit.simps(3))
next
  case (9 n c r n' c' r')
  then show ?case
    using Base_Join_skipped [of n p] by auto
qed auto

lemma subset_runAnalyzers:
  "a \<in> set as \<Longrightarrow> ShouldAnalyze a path \<Longrightarrow> Analyze rt a node = Inr cs \<Longrightarrow>
     set cs \<subseteq> set (runAnalyzers rt as path node acc)"
proof (induction as arbitrary: acc)
  case Nil
  then show ?case by simp
next
  case (Cons b as)
  have mono: "\<And>acc'. set acc' \<subseteq> set (runAnalyzers rt as path node acc')"
    using runAnalyzers_append [of rt as path node] by (metis set_append Un_upper1)
  show ?case
  proof (cases "a = b")
    case True
    then show ?thesis using Cons.prems mono [of "acc @ cs"] by auto
  next
    case False
    then have "a \<in> set as" using Cons.prems by simp
    from Cons.IH [OF this Cons.prems(2,3)] show ?thesis
      by (auto split: sum.splits)
  qed
qed

lemma visitEntries_member:
  "(n, c) \<in> set es \<Longrightarrow> set (visit rt (Join p n) c) \<subseteq> set (visitEntries rt p es)"
  by (induction es) auto


lemma subtree_visit:
  "subtree t ns = Some (File c) \<Longrightarrow>
   (\<forall>d \<in> set (dirsOnPath p ns). Base d \<notin> set skippedDirs) \<Longrightarrow>
   set (dispatch rt (foldl Join p ns) (File c)) \<subseteq> set (visit rt p t)"
proof (induction ns arbitrary: t p)
  case Nil
  then show ?case by simp
next
  case (Cons n ns)
  from Cons.prems(1) obtain es ch where t: "t = Dir es" and m: "map_of es n = Some ch"
    and s: "subtree ch ns = Some (File c)"
    by (cases t) (auto split: option.splits)
  from Cons.prems(2) have b: "Base p \<notin> set skippedDirs"
    and r: "\<forall>d \<in> set (dirsOnPath (Join p n) ns). Base d \<notin> set skippedDirs"
    by simp_all
  from Cons.IH [OF s r]
  have "set (dispatch rt (foldl Join p (n # ns)) (File c)) \<subseteq> set (visit rt (Join p n) ch)"
    by simp
  moreover have "(n, ch) \<in> set es" using m by (rule map_of_SomeD)
  ultimately show ?case
    using visitEntries_member [of n ch es rt p] t b by (auto simp: visit_Dir simp del: visit.simps(3))
qed

text \<open>
  C2. No record comes from below a directory named \<open>node_modules\<close>, \<open>vendor\<close>, \<open>.git\<close>,
  \<open>dist\<close> or \<open>build\<close>, at any depth: two trees that differ only in what such directories
  contain give the same result (so the result is also the one of the tree in which they
  are all empty). And a manifest outside every such directory contributes: when a
  readable file is reached from the root through directories none of which has a skipped
  base name, and an analyzer matches its path and parses it, all its records are in the
  result.
\<close>

theorem skipped_directories_pruned:
  "(sameOutside (Base dir) t t' \<longrightarrow> AnalyzeDir rt dir t = AnalyzeDir rt dir t')
   \<and> (subtree t ns = Some (File c)
        \<and> (\<forall>d \<in> set (dirsOnPath dir ns). Base d \<notin> set skippedDirs)
        \<and> a \<in> set NewProjectAnalyzer \<and> ShouldAnalyze a (foldl Join dir ns)
        \<and> Analyze rt a (File c) = Inr cs
      \<longrightarrow> set cs \<subseteq> set (fst (AnalyzeDir rt dir t)))"
proof (intro conjI impI)
  assume "sameOutside (Base dir) t t'"
  then show "AnalyzeDir rt dir t = AnalyzeDir rt dir t'"
    by (simp add: AnalyzeDir_visit sameOutside_visit [of "Base dir" t t' dir rt])
next
  assume h: "subtree t ns = Some (File c)
        \<and> (\<forall>d \<in> set (dirsOnPath dir ns). Base d \<notin> set skippedDirs)
        \<and> a \<in> set NewProjectAnalyzer \<and> ShouldAnalyze a (foldl Join dir ns)
        \<and> Analyze rt a (File c) = Inr cs"
  then have "set cs \<subseteq> set (dispatch rt (foldl Join dir ns) (File c))"
    unfolding dispatch_def by (intro subset_runAnalyzers) auto
  also have "\<dots> \<subseteq> set (visit rt dir t)"
    using h by (intro subtree_visit) auto
  finally show "set cs \<subseteq> set (fst (AnalyzeDir rt dir t))"
    by (simp add: AnalyzeDir_visit)
qed

theorem skipped_directories_pruned_witness:
  "sameOutside (Base ''/srv/app'') (demoTree ''flask==2.2.0'') (demoTree ''numpy==1.0'')
   \<and> AnalyzeDir (demoRuntime False) ''/srv/app'' (demoTree ''flask==2.2.0'')
       = AnalyzeDir (demoRuntime False) ''/srv/app'' (demoTree ''numpy==1.0'')
   \<and> subtree (demoTree ''flask==2.2.0'') [''sub'', ''requirements.txt'']
       = Some (File ''requests>=2.28.0'')
   \<and> set (pypiParse ''requests>=2.28.0'')
       \<subseteq> set (fst (AnalyzeDir (demoRuntime False) ''/srv/app'' (demoTree ''flask==2.2.0'')))
   \<and> map Name (fst (AnalyzeDir (demoRuntime False) ''/srv/app'' (demoTree ''flask==2.2.0'')))
       = [''flask'', ''requests'']"
proof -
  have 1: "sameOutside (Base ''/srv/app'') (demoTree ''flask==2.2.0'') (demoTree ''numpy==1.0'')"
    by code_simp
  have 2: "subtree (demoTree ''flask==2.2.0'') [''sub'', ''requirements.txt'']
       = Some (File ''requests>=2.28.0'')"
    by code_simp
  have 3: "\<forall>d \<in> set (dirsOnPath ''/srv/app'' [''sub'', ''requirements.txt'']).
             Base d \<notin> set skippedDirs"
    by code_simp
  have 4: "PyPIAnalyzer \<in> set NewProjectAnalyzer"
    by (simp add: NewProjectAnalyzer_def)
  have 5: "ShouldAnalyze PyPIAnalyzer (foldl Join ''/srv/app'' [''sub'', ''requirements.txt''])"
    by code_simp
  have 6: "Analyze (demoRuntime False) PyPIAnalyzer (File ''requests>=2.28.0'')
             = Inr (pypiParse ''requests>=2.28.0'')"
    by simp
  have 7: "map Name (fst (AnalyzeDir (demoRuntime False) ''/srv/app'' (demoTree ''flask==2.2.0'')))
       = [''flask'', ''requests'']"
    by code_simp
  from skipped_directories_pruned [of "''/srv/app''" "demoTree ''flask==2.2.0''"
      "demoTree ''numpy==1.0''" "demoRuntime False" "[''sub'', ''requirements.txt'']"
      "''requests>=2.28.0''" PyPIAnalyzer "pypiParse ''requests>=2.28.0''"]
    1 2 3 4 5 6 7
  show ?thesis by blast
qed


lemma npmAnalyze_canonical:
  "npmAnalyze rt node = Inr cs \<Longrightarrow> c \<in> set cs \<Longrightarrow> canonical ''npm'' c"
  by (auto simp: npmAnalyze_def npmDep_def npmDevDep_def canonical_def split: sum.splits)

lemma pypiLine_canonical: "c \<in> set (pypiLine raw) \<Longrightarrow> canonical ''pypi'' c"
  by (auto simp: pypiLine_def canonical_def Let_def split: if_splits)

lemma goLine_canonical: "c \<in> set (goLine raw) \<Longrightarrow> canonical ''go'' c"
  by (auto simp: goLine_def canonical_def Let_def split: if_splits)

lemma cargoLine_canonical: "c \<in> set (snd (cargoLine b raw)) \<Longrightarrow> canonical ''cargo'' c"
  by (auto simp: cargoLine_def canonical_def Let_def split: if_splits option.splits)

lemma cargoLines_canonical: "c \<in> set (cargoLines b ls) \<Longrightarrow> canonical ''cargo'' c"
proof (induction ls arbitrary: b)
  case Nil
  then show ?case by simp
next
  case (Cons l ls)
  obtain b' cs where s: "cargoLine b l = (b', cs)" by (cases "cargoLine b l")
  with Cons.prems have "c \<in> set cs \<or> c \<in> set (cargoLines b' ls)" by simp
  then show ?case
    using Cons.IH [of b'] cargoLine_canonical [of c b l] s by auto
qed

lemma pomLine_canonical: "c \<in> set (snd (pomLine b raw)) \<Longrightarrow> canonical ''maven'' c"
  by (auto simp: pomLine_def canonical_def Let_def split: if_splits)

lemma pomLines_canonical: "c \<in> set (pomLines b ls) \<Longrightarrow> canonical ''maven'' c"
proof (induction ls arbitrary: b)
  case Nil
  then show ?case by simp
next
  case (Cons l ls)
  obtain b' cs where s: "pomLine b l = (b', cs)" by (cases "pomLine b l")
  with Cons.prems have "c \<in> set cs \<or> c \<in> set (pomLines b' ls)" by simp
  then show ?case
    using Cons.IH [of b'] pomLine_canonical [of c b l] s by auto
qed

lemma Analyze_canonical:
  "Analyze rt a node = Inr cs \<Longrightarrow> c \<in> set cs \<Longrightarrow> canonical (analyzerName a) c"
proof (cases a)
  case NPMAnalyzer
  assume "Analyze rt a node = Inr cs" "c \<in> set cs"
  with NPMAnalyzer show ?thesis by (simp add: npmAnalyze_canonical)
next
  case PyPIAnalyzer
  assume "Analyze rt a node = Inr cs" "c \<in> set cs"
  with PyPIAnalyzer show ?thesis
    by (auto simp: pypiParse_def pypiLine_canonical split: sum.splits)
next
  case GoAnalyzer
  assume "Analyze rt a node = Inr cs" "c \<in> set cs"
  with GoAnalyzer show ?thesis
    by (auto simp: goParse_def goLine_canonical split: sum.splits)
next
  case CargoAnalyzer
  assume "Analyze rt a node = Inr cs" "c \<in> set cs"
  with CargoAnalyzer show ?thesis
    by (auto simp: cargoParse_def cargoLines_canonical split: sum.splits)
next
  case MavenAnalyzer
  assume "Analyze rt a node = Inr cs" "c \<in> set cs"
  with MavenAnalyzer show ?thesis
    by (auto simp: parsePomXML_def pomLines_canonical split: sum.splits)
qed

lemma canonical_wellFormed: "canonical (analyzerName a) c \<Longrightarrow> wellFormed c"
  by (cases a) (simp_all add: canonical_def wellFormed_def NewProjectAnalyzer_def)

lemma runAnalyzers_wellFormed:
  "\<forall>c \<in> set acc. wellFormed c \<Longrightarrow> \<forall>c \<in> set (runAnalyzers rt as path node acc). wellFormed c"
proof (induction as arbitrary: acc)
  case Nil
  then show ?case by simp
next
  case (Cons a as)
  show ?case
  proof (cases "Analyze rt a node")
    case (Inl e)
    then show ?thesis using Cons by simp
  next
    case (Inr cs)
    then have "\<forall>c \<in> set (acc @ cs). wellFormed c"
      using Cons.prems Analyze_canonical [of rt a node cs] canonical_wellFormed [of a] by auto
    from Cons.IH [OF this] Cons.IH [OF Cons.prems] Inr show ?thesis by simp
  qed
qed

lemma visit_wellFormed:
  "\<forall>c \<in> set (visit rt path node). wellFormed c"
  "\<forall>c \<in> set (visitEntries rt path es). wellFormed c"
proof (induction rt path node and rt path es rule: visit_visitEntries.induct)
  case (1 rt path c)
  show ?case using runAnalyzers_wellFormed [of "[]"] by (simp add: dispatch_def)
next
  case (2 rt path)
  show ?case using runAnalyzers_wellFormed [of "[]"] by (simp add: dispatch_def)
next
  case (3 rt path es)
  then show ?case using runAnalyzers_wellFormed [of "[]"] by (auto simp: dispatch_def)
qed auto

text \<open>
  C8. Every record an analyzer returns has the name of the analyzer as its supplier and
  the package URL \<open>pkg:<ecosystem>/<name>@<version>\<close> built from its own name and version;
  the records \<open>AnalyzeDir\<close> returns are in that state too: nothing changes a record between
  the parser and the result.
\<close>

theorem package_url_canonical:
  "(Analyze rt a node = Inr cs \<longrightarrow>
      (\<forall>c \<in> set cs. Supplier c = analyzerName a
         \<and> PURL c = ''pkg:'' @ analyzerName a @ ''/'' @ Name c @ ''@'' @ Version c))
   \<and> (\<forall>c \<in> set (fst (AnalyzeDir rt dir t)).
         Supplier c \<in> set (map analyzerName NewProjectAnalyzer)
         \<and> PURL c = ''pkg:'' @ Supplier c @ ''/'' @ Name c @ ''@'' @ Version c)"
proof (intro conjI impI ballI)
  fix c assume "Analyze rt a node = Inr cs" "c \<in> set cs"
  then have "canonical (analyzerName a) c" by (rule Analyze_canonical)
  then show "Supplier c = analyzerName a"
    and "PURL c = ''pkg:'' @ analyzerName a @ ''/'' @ Name c @ ''@'' @ Version c"
    by (simp_all add: canonical_def)
next
  fix c assume "c \<in> set (fst (AnalyzeDir rt dir t))"
  then have "wellFormed c" using visit_wellFormed(1) [of rt dir t] by (simp add: AnalyzeDir_visit)
  then show "Supplier c \<in> set (map analyzerName NewProjectAnalyzer)"
    and "PURL c = ''pkg:'' @ Supplier c @ ''/'' @ Name c @ ''@'' @ Version c"
    by (simp_all add: wellFormed_def)
qed


theorem package_url_canonical_witness:
  "Analyze (demoRuntime False) GoAnalyzer (File ''github.com/gin-gonic/gin v1.9.0'')
     = Inr [\<lparr>Name = ''gin'', Version = ''v1.9.0'', Supplier = ''go'',
             PURL = ''pkg:go/gin@v1.9.0'', Description = []\<rparr>]
   \<and> ''pkg:go/gin@v1.9.0'' = ''pkg:'' @ analyzerName GoAnalyzer @ ''/'' @ ''gin'' @ ''@'' @ ''v1.9.0''
   \<and> map PURL (fst (AnalyzeDir (demoRuntime False) ''/srv/app''
                      (Dir [(''package.json'', File demoJSON)])))
       = [''pkg:npm/express@^4.18.0'', ''pkg:npm/lodash@~4.17.0'', ''pkg:npm/jest@^29.0.0'']
   \<and> map (\<lambda>c. ''pkg:'' @ Supplier c @ ''/'' @ Name c @ ''@'' @ Version c)
         (fst (AnalyzeDir (demoRuntime False) ''/srv/app''
                 (Dir [(''package.json'', File demoJSON)])))
       = map PURL (fst (AnalyzeDir (demoRuntime False) ''/srv/app''
                 (Dir [(''package.json'', File demoJSON)])))"
proof -
  let ?gin = "\<lparr>Name = ''gin'', Version = ''v1.9.0'', Supplier = ''go'',
                PURL = ''pkg:go/gin@v1.9.0'', Description = []\<rparr>"
  let ?t = "Dir [(''package.json'', File demoJSON)]"
  have 1: "Analyze (demoRuntime False) GoAnalyzer (File ''github.com/gin-gonic/gin v1.9.0'')
             = Inr [?gin]"
    by code_simp
  note inst = package_url_canonical [of "demoRuntime False" GoAnalyzer
      "File ''github.com/gin-gonic/gin v1.9.0''" "[?gin]" "''/srv/app''" ?t]
  from inst 1
  have "PURL ?gin = ''pkg:'' @ analyzerName GoAnalyzer @ ''/'' @ Name ?gin @ ''@'' @ Version ?gin"
    by simp
  then have 2: "''pkg:go/gin@v1.9.0''
                  = ''pkg:'' @ analyzerName GoAnalyzer @ ''/'' @ ''gin'' @ ''@'' @ ''v1.9.0''"
    by simp
  have 3: "map PURL (fst (AnalyzeDir (demoRuntime False) ''/srv/app'' ?t))
       = [''pkg:npm/express@^4.18.0'', ''pkg:npm/lodash@~4.17.0'', ''pkg:npm/jest@^29.0.0'']"
    by code_simp
  from inst
  have "\<forall>c \<in> set (fst (AnalyzeDir (demoRuntime False) ''/srv/app'' ?t)).
          PURL c = ''pkg:'' @ Supplier c @ ''/'' @ Name c @ ''@'' @ Version c"
    by blast
  then have 4: "map (\<lambda>c. ''pkg:'' @ Supplier c @ ''/'' @ Name c @ ''@'' @ Version c)
         (fst (AnalyzeDir (demoRuntime False) ''/srv/app'' ?t))
       = map PURL (fst (AnalyzeDir (demoRuntime False) ''/srv/app'' ?t))"
    by (intro map_cong) simp_all
  from 1 2 3 4 show ?thesis by blast
qed


















lemma name_version_npmDep: "(\<lambda>c. (Name c, Version c)) \<circ> npmDep = id"
  by (auto simp: npmDep_def fun_eq_iff)

lemma name_version_npmDevDep: "(\<lambda>c. (Name c, Version c)) \<circ> npmDevDep = id"
  by (auto simp: npmDevDep_def fun_eq_iff)

lemma runAnalyzers_malformed_package_json:
  assumes "Base path = ''package.json''" and "Unmarshal rt data = Inl e"
  shows "runAnalyzers rt NewProjectAnalyzer path (File data) acc = acc"
  using assms by (simp add: NewProjectAnalyzer_def npmAnalyze_def)

text \<open>
  C3. When \<open>json.Unmarshal\<close> decodes the package.json (N entries under "dependencies", M
  under "devDependencies") and the \<open>range\<close> loops visit every entry once, the parser
  returns N records for the first map followed by M for the second, with the names and
  versions of the entries; exactly the M are marked \<open>development dependency\<close>; every
  record has supplier \<open>npm\<close> and the package URL \<open>pkg:npm/<name>@<version>\<close>. When the
  decoder fails the parser fails, and the file adds nothing to the result.
\<close>

theorem npm_records:
  "(Unmarshal rt data = Inr pkg
      \<and> mset (mapRange rt (Dependencies pkg)) = mset (Dependencies pkg)
      \<and> mset (mapRange rt (DevDeps pkg)) = mset (DevDeps pkg)
    \<longrightarrow> (\<exists>deps devs.
          npmAnalyze rt (File data) = Inr (deps @ devs)
          \<and> length deps = length (Dependencies pkg) \<and> length devs = length (DevDeps pkg)
          \<and> mset (map (\<lambda>c. (Name c, Version c)) deps) = mset (Dependencies pkg)
          \<and> mset (map (\<lambda>c. (Name c, Version c)) devs) = mset (DevDeps pkg)
          \<and> (\<forall>c \<in> set deps. Description c = [])
          \<and> (\<forall>c \<in> set devs. Description c = ''development dependency'')
          \<and> (\<forall>c \<in> set (deps @ devs).
                Supplier c = ''npm'' \<and> PURL c = ''pkg:npm/'' @ Name c @ ''@'' @ Version c)))
   \<and> (Unmarshal rt data = Inl e \<and> Base path = ''package.json''
    \<longrightarrow> npmAnalyze rt (File data) = Inl e
        \<and> runAnalyzers rt NewProjectAnalyzer path (File data) acc = acc
        \<and> AnalyzeDir rt path (File data) = ([], None))"
proof (intro conjI impI)
  assume h: "Unmarshal rt data = Inr pkg
      \<and> mset (mapRange rt (Dependencies pkg)) = mset (Dependencies pkg)
      \<and> mset (mapRange rt (DevDeps pkg)) = mset (DevDeps pkg)"
  let ?deps = "map npmDep (mapRange rt (Dependencies pkg))"
  let ?devs = "map npmDevDep (mapRange rt (DevDeps pkg))"
  have 1: "npmAnalyze rt (File data) = Inr (?deps @ ?devs)"
    using h by (simp add: npmAnalyze_def)
  have 2: "length ?deps = length (Dependencies pkg)" "length ?devs = length (DevDeps pkg)"
    using h by (metis length_map size_mset)+
  have 3: "mset (map (\<lambda>c. (Name c, Version c)) ?deps) = mset (Dependencies pkg)"
    "mset (map (\<lambda>c. (Name c, Version c)) ?devs) = mset (DevDeps pkg)"
    using h by (simp_all add: name_version_npmDep name_version_npmDevDep)
  have 4: "\<forall>c \<in> set ?deps. Description c = []"
    "\<forall>c \<in> set ?devs. Description c = ''development dependency''"
    by (auto simp: npmDep_def npmDevDep_def)
  have 5: "\<forall>c \<in> set (?deps @ ?devs).
        Supplier c = ''npm'' \<and> PURL c = ''pkg:npm/'' @ Name c @ ''@'' @ Version c"
    by (auto simp: npmDep_def npmDevDep_def)
  from 1 2 3 4 5 show "\<exists>deps devs.
          npmAnalyze rt (File data) = Inr (deps @ devs)
          \<and> length deps = length (Dependencies pkg) \<and> length devs = length (DevDeps pkg)
          \<and> mset (map (\<lambda>c. (Name c, Version c)) deps) = mset (Dependencies pkg)
          \<and> mset (map (\<lambda>c. (Name c, Version c)) devs) = mset (DevDeps pkg)
          \<and> (\<forall>c \<in> set deps. Description c = [])
          \<and> (\<forall>c \<in> set devs. Description c = ''development dependency'')
          \<and> (\<forall>c \<in> set (deps @ devs).
                Supplier c = ''npm'' \<and> PURL c = ''pkg:npm/'' @ Name c @ ''@'' @ Version c)"
    by blast
next
  assume h: "Unmarshal rt data = Inl e \<and> Base path = ''package.json''"
  then show "npmAnalyze rt (File data) = Inl e" by (simp add: npmAnalyze_def)
  from h show "runAnalyzers rt NewProjectAnalyzer path (File data) acc = acc"
    by (simp add: runAnalyzers_malformed_package_json)
  from h show "AnalyzeDir rt path (File data) = ([], None)"
    by (simp add: AnalyzeDir_visit dispatch_def runAnalyzers_malformed_package_json)
qed

theorem npm_records_witness:
  "Unmarshal (demoRuntime True) demoJSON = Inr demoPackage
   \<and> mset (mapRange (demoRuntime True) (Dependencies demoPackage)) = mset (Dependencies demoPackage)
   \<and> mset (mapRange (demoRuntime True) (DevDeps demoPackage)) = mset (DevDeps demoPackage)
   \<and> (\<exists>deps devs.
          npmAnalyze (demoRuntime True) (File demoJSON) = Inr (deps @ devs)
          \<and> length deps = 2 \<and> length devs = 1
          \<and> (\<forall>c \<in> set deps. Description c = [])
          \<and> (\<forall>c \<in> set devs. Description c = ''development dependency''))
   \<and> Unmarshal (demoRuntime True) ''{'' = Inl ErrJSON
   \<and> Base ''/srv/app/package.json'' = ''package.json''
   \<and> AnalyzeDir (demoRuntime True) ''/srv/app/package.json'' (File ''{'') = ([], None)"
proof -
  have 1: "Unmarshal (demoRuntime True) demoJSON = Inr demoPackage"
    by (simp add: demoRuntime_def)
  have 2: "mset (mapRange (demoRuntime True) (Dependencies demoPackage)) = mset (Dependencies demoPackage)"
    by (simp add: demoRuntime_def)
  have 3: "mset (mapRange (demoRuntime True) (DevDeps demoPackage)) = mset (DevDeps demoPackage)"
    by (simp add: demoRuntime_def)
  have 4: "Unmarshal (demoRuntime True) ''{'' = Inl ErrJSON"
    by (simp add: demoRuntime_def demoJSON_def)
  have 5: "Base ''/srv/app/package.json'' = ''package.json''"
    by code_simp
  have 6: "length (Dependencies demoPackage) = 2 \<and> length (DevDeps demoPackage) = 1"
    by (simp add: demoPackage_def)
  from npm_records [of "demoRuntime True" demoJSON demoPackage ErrJSON "''/srv/app/package.json''"]
    1 2 3
  obtain deps devs where "npmAnalyze (demoRuntime True) (File demoJSON) = Inr (deps @ devs)
          \<and> length deps = length (Dependencies demoPackage) \<and> length devs = length (DevDeps demoPackage)
          \<and> (\<forall>c \<in> set deps. Description c = [])
          \<and> (\<forall>c \<in> set devs. Description c = ''development dependency'')"
    by blast
  with 6 have 7: "\<exists>deps devs.
          npmAnalyze (demoRuntime True) (File demoJSON) = Inr (deps @ devs)
          \<and> length deps = 2 \<and> length devs = 1
          \<and> (\<forall>c \<in> set deps. Description c = [])
          \<and> (\<forall>c \<in> set devs. Description c = ''development dependency'')"
    by metis
  from npm_records [of "demoRuntime True" "''{''" demoPackage ErrJSON "''/srv/app/package.json''"]
    4 5
  have 8: "AnalyzeDir (demoRuntime True) ''/srv/app/package.json'' (File ''{'') = ([], None)"
    by blast
  from 1 2 3 4 5 7 8 show ?thesis by blast
qed


section \<open>Properties of the line parsers\<close>

lemma Index_Nil: "sep \<noteq> [] \<Longrightarrow> Index [] sep = None"
  by simp

lemma Index_bound: "Index s sep = Some i \<Longrightarrow> i + length sep \<le> length s"
proof (induction s arbitrary: i)
  case Nil
  then show ?case by (simp split: if_splits)
next
  case (Cons c s)
  show ?case
  proof (cases "prefix sep (c # s)")
    case True
    then show ?thesis using Cons.prems by (auto dest: prefix_length_le)
  next
    case False
    then obtain j where "Index s sep = Some j" "i = Suc j" using Cons.prems by auto
    then show ?thesis using Cons.IH by auto
  qed
qed

lemma genSplit_head:
  "sep \<noteq> [] \<Longrightarrow> length r \<le> n \<Longrightarrow> \<exists>rest. genSplit r sep n = upTo sep r # rest"
proof (cases n)
  case 0
  assume "sep \<noteq> []" "length r \<le> n"
  with 0 show ?thesis by (simp add: upTo_def)
next
  case (Suc m)
  then show ?thesis by (cases "Index r sep") (simp_all add: upTo_def)
qed

lemma Split_None: "Index s sep = None \<Longrightarrow> Split s sep = [s]"
  by (cases s) (simp_all add: Split_def)

lemma Split_Some:
  assumes "sep \<noteq> []" and "Index s sep = Some i"
  shows "\<exists>rest. Split s sep = take i s # upTo sep (drop (i + length sep) s) # rest"
proof -
  from assms have "s \<noteq> []" by auto
  then obtain n where n: "length s = Suc n" by (cases s) auto
  have "length (drop (i + length sep) s) \<le> n"
    using n assms(1) by (cases sep) auto
  from genSplit_head [OF assms(1) this] obtain rest
    where "genSplit (drop (i + length sep) s) sep n = upTo sep (drop (i + length sep) s) # rest"
    by blast
  then show ?thesis using n assms(2) by (simp add: Split_def)
qed

lemma pypiLine_skip:
  "TrimSpace raw = [] \<or> HasPrefix (TrimSpace raw) ''#'' \<Longrightarrow> pypiLine raw = []"
  by (auto simp: pypiLine_def)

lemma pypiLine_split:
  assumes "TrimSpace raw \<noteq> []" and "\<not> HasPrefix (TrimSpace raw) ''#''"
    and "firstOperator (TrimSpace raw) = Some op" and "Index (TrimSpace raw) op = Some i"
  shows "pypiLine raw = [pypiRecord (TrimSpace raw) op i]"
proof -
  let ?l = "TrimSpace raw"
  from assms(3) consider
      (eq) "op = ''==''"
    | (ge) "op = ''>=''" "Index ?l ''=='' = None"
    | (le) "op = ''<=''" "Index ?l ''=='' = None" "Index ?l ''>='' = None"
    by (auto simp: firstOperator_def Contains_def split: if_splits)
  then show ?thesis
  proof cases
    case eq
    from Split_Some [of op ?l i] assms(4) eq obtain rest
      where "Split ?l ''=='' = take i ?l # upTo ''=='' (drop (i + 2) ?l) # rest" by auto
    then show ?thesis using assms(1,2) eq
      by (simp add: pypiLine_def pypiRecord_def Let_def)
  next
    case ge
    from Split_Some [of op ?l i] assms(4) ge obtain rest
      where "Split ?l ''>='' = take i ?l # upTo ''>='' (drop (i + 2) ?l) # rest" by auto
    then show ?thesis using assms(1,2) ge Split_None [of ?l "''==''"]
      by (simp add: pypiLine_def pypiRecord_def Let_def)
  next
    case le
    from Split_Some [of op ?l i] assms(4) le obtain rest
      where "Split ?l ''<='' = take i ?l # upTo ''<='' (drop (i + 2) ?l) # rest" by auto
    then show ?thesis
      using assms(1,2) le Split_None [of ?l "''==''"] Split_None [of ?l "''>=''"]
      by (simp add: pypiLine_def pypiRecord_def Let_def)
  qed
qed

lemma pypiLine_no_operator:
  assumes "firstOperator (TrimSpace raw) = None"
  shows "pypiLine raw = []"
proof -
  from assms have "Index (TrimSpace raw) ''=='' = None" "Index (TrimSpace raw) ''>='' = None"
    "Index (TrimSpace raw) ''<='' = None"
    by (auto simp: firstOperator_def Contains_def split: if_splits)
  then show ?thesis
    by (simp add: pypiLine_def Let_def Split_None)
qed

text \<open>
  C4 as amended. A line that is empty or begins with \<open>#\<close> once its surrounding white space
  is removed yields no record. Any other line is split on the first of \<open>==\<close>, \<open>>=\<close>, \<open><=\<close>
  that occurs in it, at the first occurrence, and yields exactly one record: the name is
  the text before the operator, the version is the text between the operator and its
  next occurrence (the rest of the line when there is none), both trimmed. A line with
  none of the three operators yields no record.
\<close>

theorem requirements_line:
  "(TrimSpace raw = [] \<or> HasPrefix (TrimSpace raw) ''#'' \<longrightarrow> pypiLine raw = [])
   \<and> (TrimSpace raw \<noteq> [] \<and> \<not> HasPrefix (TrimSpace raw) ''#''
        \<and> firstOperator (TrimSpace raw) = Some op \<and> Index (TrimSpace raw) op = Some i
      \<longrightarrow> pypiLine raw = [pypiRecord (TrimSpace raw) op i])
   \<and> (firstOperator (TrimSpace raw) = None \<longrightarrow> pypiLine raw = [])"
  using pypiLine_skip [of raw] pypiLine_split [of raw op i] pypiLine_no_operator [of raw]
  by blast


theorem requirements_line_witness:
  "HasPrefix (TrimSpace ''# pinned'') ''#''
   \<and> pypiLine ''# pinned'' = []
   \<and> firstOperator (TrimSpace '' flask == 2.2.0 '') = Some ''==''
   \<and> Index (TrimSpace '' flask == 2.2.0 '') ''=='' = Some 6
   \<and> pypiLine '' flask == 2.2.0 ''
       = [\<lparr>Name = ''flask'', Version = ''2.2.0'', Supplier = ''pypi'',
            PURL = ''pkg:pypi/flask@2.2.0'', Description = []\<rparr>]
   \<and> firstOperator (TrimSpace ''numpy~=1.23.0'') = None
   \<and> pypiLine ''numpy~=1.23.0'' = []"
proof -
  have 1: "HasPrefix (TrimSpace ''# pinned'') ''#''"
    by code_simp
  have 2: "pypiLine ''# pinned'' = []"
    using requirements_line [of "''# pinned''"] 1 by blast
  have 3: "TrimSpace '' flask == 2.2.0 '' \<noteq> []"
    "\<not> HasPrefix (TrimSpace '' flask == 2.2.0 '') ''#''"
    "firstOperator (TrimSpace '' flask == 2.2.0 '') = Some ''==''"
    "Index (TrimSpace '' flask == 2.2.0 '') ''=='' = Some 6"
    by code_simp+
  have 4: "pypiRecord (TrimSpace '' flask == 2.2.0 '') ''=='' 6
       = \<lparr>Name = ''flask'', Version = ''2.2.0'', Supplier = ''pypi'',
            PURL = ''pkg:pypi/flask@2.2.0'', Description = []\<rparr>"
    by code_simp
  have 5: "pypiLine '' flask == 2.2.0 ''
       = [\<lparr>Name = ''flask'', Version = ''2.2.0'', Supplier = ''pypi'',
            PURL = ''pkg:pypi/flask@2.2.0'', Description = []\<rparr>]"
    using requirements_line [of "'' flask == 2.2.0 ''" "''==''" 6] 3 4 by simp
  have 6: "firstOperator (TrimSpace ''numpy~=1.23.0'') = None"
    by code_simp
  have 7: "pypiLine ''numpy~=1.23.0'' = []"
    using requirements_line [of "''numpy~=1.23.0''"] 6 by blast
  from 1 2 3 5 6 7 show ?thesis by blast
qed

text \<open>
  C4 as stated fails on a line in which the operator occurs twice: the version is not the
  text after the first \<open>==\<close> (here \<open>1.0; extra==docs\<close>) but only the text up to the second
  one. And a comment line that is indented does not begin with \<open>#\<close>, yet it is skipped,
  although it holds an operator.
\<close>

theorem requirements_line_counterexample:
  "Index ''pkg==1.0; extra==docs'' ''=='' = Some 3
   \<and> map Version (pypiLine ''pkg==1.0; extra==docs'')
       \<noteq> [TrimSpace (drop (3 + 2) ''pkg==1.0; extra==docs'')]
   \<and> \<not> HasPrefix ''  #pinned==1'' ''#''
   \<and> Index ''  #pinned==1'' ''=='' = Some 9
   \<and> pypiLine ''  #pinned==1'' = []"
  by code_simp

lemma Index_char: "c \<notin> set n \<Longrightarrow> Index (n @ c # v) [c] = Some (length n)"
  by (induction n) auto

lemma SplitN_two:
  "c \<notin> set n \<Longrightarrow> SplitN (n @ c # v) [c] 2 = [n, v]"
  by (simp add: SplitN_def numeral_2_eq_2 Index_char)

lemma dropWhile_notin: "xs \<noteq> [] \<Longrightarrow> hd xs \<notin> set cs \<Longrightarrow> dropWhile (\<lambda>c. c \<in> set cs) xs = xs"
  by (cases xs) auto

lemma Trim_quoted: "q \<notin> set x \<Longrightarrow> Trim (q # x @ [q]) [q] = x"
proof (cases "x = []")
  case True
  then show ?thesis by (simp add: Trim_def)
next
  case False
  assume q: "q \<notin> set x"
  have 1: "dropWhile (\<lambda>c. c \<in> set [q]) (q # x @ [q]) = x @ [q]"
    using False q dropWhile_notin [of "x @ [q]" "[q]"] by (cases x) auto
  have "hd (rev x) \<in> set x" using False by (metis hd_rev last_in_set)
  then have "hd (rev x) \<notin> set [q]" using q by auto
  then have 2: "dropWhile (\<lambda>c. c \<in> set [q]) (q # rev x) = rev x"
    using False dropWhile_notin [of "rev x" "[q]"] by simp
  show ?thesis using 1 2 by (simp add: Trim_def)
qed

lemma cargoLine_header:
  "HasPrefix (TrimSpace raw) ''[dependencies]'' \<Longrightarrow> cargoLine b raw = (True, [])"
  by (simp add: cargoLine_def)

lemma cargoLine_section:
  "\<not> HasPrefix (TrimSpace raw) ''[dependencies]'' \<Longrightarrow> HasPrefix (TrimSpace raw) ''['' \<Longrightarrow>
     cargoLine b raw = (False, [])"
  by (simp add: cargoLine_def)

lemma header_bracket: "HasPrefix l ''[dependencies]'' \<Longrightarrow> HasPrefix l ''[''"
  unfolding HasPrefix_def by (rule prefix_order.trans [of "''[''" "''[dependencies]''"]) simp_all

lemma cargoLine_state:
  assumes "\<not> HasPrefix (TrimSpace raw) ''[''"
  shows "fst (cargoLine b raw) = b"
proof -
  from assms header_bracket have "\<not> HasPrefix (TrimSpace raw) ''[dependencies]''" by blast
  with assms show ?thesis
    by (simp add: cargoLine_def Let_def split: option.splits)
qed

lemma cargoLine_bare:
  assumes "TrimSpace raw = n @ ''='' @ v" and "CHR ''='' \<notin> set n"
    and "\<not> HasPrefix (TrimSpace raw) ''[''" and "\<not> HasPrefix (TrimSpace raw) ''#''"
    and "TrimSpace v = [CHR 0x22] @ x @ [CHR 0x22]" and "CHR 0x22 \<notin> set x"
  shows "cargoLine True raw = (True, [cargoRecord (TrimSpace n) x])"
proof -
  from assms(3) header_bracket have h: "\<not> HasPrefix (TrimSpace raw) ''[dependencies]''" by blast
  have s: "SplitN (TrimSpace raw) ''='' 2 = [n, v]"
    using assms(1,2) SplitN_two [of "CHR ''=''" n v] by simp
  have b: "\<not> HasPrefix (TrimSpace v) ''{''"
    using assms(5) by (simp add: HasPrefix_def)
  have t: "Trim (TrimSpace v) [CHR 0x22] = x"
    using assms(5,6) Trim_quoted [of "CHR 0x22" x] by simp
  have ne: "TrimSpace raw \<noteq> []" using assms(1) by simp
  show ?thesis
    unfolding cargoLine_def using h assms(3,4) s b t ne
    by (simp add: Let_def cargoRecord_def)
qed

lemma cargoLine_inline:
  assumes "TrimSpace raw = n @ ''='' @ v" and "CHR ''='' \<notin> set n"
    and "\<not> HasPrefix (TrimSpace raw) ''[''" and "\<not> HasPrefix (TrimSpace raw) ''#''"
    and "TrimSpace v = ''{'' @ a @ [CHR 0x22] @ x @ [CHR 0x22] @ z"
    and "CHR 0x22 \<notin> set a" and "CHR 0x22 \<notin> set x"
  shows "cargoLine True raw = (True, [cargoRecord (TrimSpace n) x])"
proof -
  from assms(3) header_bracket have h: "\<not> HasPrefix (TrimSpace raw) ''[dependencies]''" by blast
  have s: "SplitN (TrimSpace raw) ''='' 2 = [n, v]"
    using assms(1,2) SplitN_two [of "CHR ''=''" n v] by simp
  have b: "HasPrefix (TrimSpace v) ''{''"
    using assms(5) by (simp add: HasPrefix_def)
  have "CHR 0x22 \<notin> set (''{'' @ a)" using assms(6) by simp
  from Index_char [OF this, of "x @ [CHR 0x22] @ z"]
  have i1: "Index (TrimSpace v) [CHR 0x22] = Some (Suc (length a))"
    using assms(5) by simp
  have d: "drop (Suc (length a) + 1) (TrimSpace v) = x @ [CHR 0x22] @ z"
    using assms(5) by simp
  have i2: "Index (drop (Suc (length a) + 1) (TrimSpace v)) [CHR 0x22] = Some (length x)"
    using Index_char [OF assms(7), of z] d by simp
  have sl: "slice (TrimSpace v) (Suc (length a) + 1) (Suc (length a) + length x + 1) = x"
    using d by (simp add: slice_def)
  have ne: "TrimSpace raw \<noteq> []" using assms(1) by simp
  show ?thesis
    unfolding cargoLine_def using h assms(3,4) s b i1 i2 sl ne
    by (simp add: Let_def cargoRecord_def)
qed


text \<open>
  C5 as amended. The state becomes true on a line that, trimmed, begins with
  \<open>[dependencies]\<close> (whatever follows on the line), becomes false on any other line that
  begins with \<open>[\<close>, and is unchanged by every other line. While it is true, an entry
  \<open>name = "x"\<close> and an entry \<open>name = { ... "x" ... }\<close> whose first two double quotes enclose
  \<open>x\<close> each yield exactly one record with the trimmed name and the version \<open>x\<close> (\<open>x\<close> without
  a double quote).
\<close>

theorem cargo_line:
  "(HasPrefix (TrimSpace raw) ''[dependencies]'' \<longrightarrow> cargoLine b raw = (True, []))
   \<and> (\<not> HasPrefix (TrimSpace raw) ''[dependencies]'' \<and> HasPrefix (TrimSpace raw) ''[''
        \<longrightarrow> cargoLine b raw = (False, []))
   \<and> (\<not> HasPrefix (TrimSpace raw) ''['' \<longrightarrow> fst (cargoLine b raw) = b)
   \<and> (TrimSpace raw = n @ ''='' @ v \<and> CHR ''='' \<notin> set n
        \<and> \<not> HasPrefix (TrimSpace raw) ''['' \<and> \<not> HasPrefix (TrimSpace raw) ''#''
        \<and> TrimSpace v = [CHR 0x22] @ x @ [CHR 0x22] \<and> CHR 0x22 \<notin> set x
        \<longrightarrow> cargoLine True raw = (True, [cargoRecord (TrimSpace n) x]))
   \<and> (TrimSpace raw = n @ ''='' @ v \<and> CHR ''='' \<notin> set n
        \<and> \<not> HasPrefix (TrimSpace raw) ''['' \<and> \<not> HasPrefix (TrimSpace raw) ''#''
        \<and> TrimSpace v = ''{'' @ a @ [CHR 0x22] @ x @ [CHR 0x22] @ z
        \<and> CHR 0x22 \<notin> set a \<and> CHR 0x22 \<notin> set x
        \<longrightarrow> cargoLine True raw = (True, [cargoRecord (TrimSpace n) x]))"
  using cargoLine_header [of raw b] cargoLine_section [of raw b] cargoLine_state [of raw b]
    cargoLine_bare [of raw n v x] cargoLine_inline [of raw n v a x z]
  by blast

theorem cargo_line_witness:
  \<open>cargoLine False ''[dependencies]'' = (True, [])
   \<and> cargoLine True ''[dev-dependencies]'' = (False, [])
   \<and> fst (cargoLine True ''# pinned'') = True
   \<and> cargoLine True ''tokio = "1.28.0"''
       = (True, [\<lparr>Name = ''tokio'', Version = ''1.28.0'', Supplier = ''cargo'',
                  PURL = ''pkg:cargo/tokio@1.28.0'', Description = []\<rparr>])
   \<and> cargoLine True ''serde = { version = "1.0.0" }''
       = (True, [\<lparr>Name = ''serde'', Version = ''1.0.0'', Supplier = ''cargo'',
                  PURL = ''pkg:cargo/serde@1.0.0'', Description = []\<rparr>])\<close>
proof -
  have 1: "cargoLine False ''[dependencies]'' = (True, [])"
  proof -
    have "HasPrefix (TrimSpace ''[dependencies]'') ''[dependencies]''" by code_simp
    then show ?thesis using cargo_line [of "''[dependencies]''" False] by blast
  qed
  have 2: "cargoLine True ''[dev-dependencies]'' = (False, [])"
  proof -
    have "\<not> HasPrefix (TrimSpace ''[dev-dependencies]'') ''[dependencies]''"
      "HasPrefix (TrimSpace ''[dev-dependencies]'') ''[''" by code_simp+
    then show ?thesis using cargo_line [of "''[dev-dependencies]''" True] by blast
  qed
  have 3: "fst (cargoLine True ''# pinned'') = True"
  proof -
    have "\<not> HasPrefix (TrimSpace ''# pinned'') ''[''" by code_simp
    then show ?thesis using cargo_line [of "''# pinned''" True] by blast
  qed
  have 4: \<open>cargoLine True ''tokio = "1.28.0"''
       = (True, [\<lparr>Name = ''tokio'', Version = ''1.28.0'', Supplier = ''cargo'',
                  PURL = ''pkg:cargo/tokio@1.28.0'', Description = []\<rparr>])\<close>
  proof -
    have h: \<open>TrimSpace ''tokio = "1.28.0"'' = ''tokio '' @ ''='' @ '' "1.28.0"''\<close>
      \<open>CHR ''='' \<notin> set ''tokio ''\<close>
      \<open>\<not> HasPrefix (TrimSpace ''tokio = "1.28.0"'') ''[''\<close>
      \<open>\<not> HasPrefix (TrimSpace ''tokio = "1.28.0"'') ''#''\<close>
      \<open>TrimSpace '' "1.28.0"'' = [CHR 0x22] @ ''1.28.0'' @ [CHR 0x22]\<close>
      \<open>CHR 0x22 \<notin> set ''1.28.0''\<close>
      by code_simp+
    have r: "cargoRecord (TrimSpace ''tokio '') ''1.28.0''
         = \<lparr>Name = ''tokio'', Version = ''1.28.0'', Supplier = ''cargo'',
                  PURL = ''pkg:cargo/tokio@1.28.0'', Description = []\<rparr>"
      by code_simp
    from cargo_line [where raw = \<open>''tokio = "1.28.0"''\<close> and n = "''tokio ''"
        and v = \<open>'' "1.28.0"''\<close> and x = "''1.28.0''"] h
    have \<open>cargoLine True ''tokio = "1.28.0"''
            = (True, [cargoRecord (TrimSpace ''tokio '') ''1.28.0''])\<close>
      by blast
    then show ?thesis using r by simp
  qed
  have 5: \<open>cargoLine True ''serde = { version = "1.0.0" }''
       = (True, [\<lparr>Name = ''serde'', Version = ''1.0.0'', Supplier = ''cargo'',
                  PURL = ''pkg:cargo/serde@1.0.0'', Description = []\<rparr>])\<close>
  proof -
    have h: \<open>TrimSpace ''serde = { version = "1.0.0" }''
               = ''serde '' @ ''='' @ '' { version = "1.0.0" }''\<close>
      \<open>CHR ''='' \<notin> set ''serde ''\<close>
      \<open>\<not> HasPrefix (TrimSpace ''serde = { version = "1.0.0" }'') ''[''\<close>
      \<open>\<not> HasPrefix (TrimSpace ''serde = { version = "1.0.0" }'') ''#''\<close>
      \<open>TrimSpace '' { version = "1.0.0" }''
         = ''{'' @ '' version = '' @ [CHR 0x22] @ ''1.0.0'' @ [CHR 0x22] @ '' }''\<close>
      \<open>CHR 0x22 \<notin> set '' version = ''\<close>
      \<open>CHR 0x22 \<notin> set ''1.0.0''\<close>
      by code_simp+
    have r: "cargoRecord (TrimSpace ''serde '') ''1.0.0''
         = \<lparr>Name = ''serde'', Version = ''1.0.0'', Supplier = ''cargo'',
                  PURL = ''pkg:cargo/serde@1.0.0'', Description = []\<rparr>"
      by code_simp
    from cargo_line [where raw = \<open>''serde = { version = "1.0.0" }''\<close> and n = "''serde ''"
        and v = \<open>'' { version = "1.0.0" }''\<close> and a = "'' version = ''" and x = "''1.0.0''"
        and z = "'' }''"] h
    have \<open>cargoLine True ''serde = { version = "1.0.0" }''
            = (True, [cargoRecord (TrimSpace ''serde '') ''1.0.0''])\<close>
      by blast
    then show ?thesis using r by simp
  qed
  from 1 2 3 4 5 show ?thesis by blast
qed

text \<open>
  C5 as stated fails on a header line that carries more than \<open>[dependencies]\<close>: it is
  another line beginning with \<open>[\<close>, not equal to \<open>[dependencies]\<close>, and the state becomes
  true, not false, so that the entries below it are read. And for a bare string whose
  content ends in an escaped double quote (backslash, double quote) the version is not
  the quoted content: every double quote at either end is stripped.
\<close>

theorem cargo_line_counterexample:
  \<open>''[dependencies] # pinned'' \<noteq> ''[dependencies]''
   \<and> HasPrefix ''[dependencies] # pinned'' ''[''
   \<and> cargoLine False ''[dependencies] # pinned'' = (True, [])
   \<and> cargoParse (''[dependencies] # pinned'' @ [CHR 0x0A] @ ''tokio = "1.28.0"'')
       = [\<lparr>Name = ''tokio'', Version = ''1.28.0'', Supplier = ''cargo'',
            PURL = ''pkg:cargo/tokio@1.28.0'', Description = []\<rparr>]
   \<and> map Version (snd (cargoLine True (''odd = "1.0'' @ [CHR 0x5C] @ ''""'')))
       = [''1.0'' @ [CHR 0x5C]]\<close>
  by code_simp


lemma sublist_trans: "sublist xs ys \<Longrightarrow> sublist ys zs \<Longrightarrow> sublist xs zs"
  by (rule sublist_order.order_trans)

lemma Index_sublist: "Index s t \<noteq> None \<Longrightarrow> sublist t s"
proof (induction s)
  case Nil
  then show ?case by (simp split: if_splits)
next
  case (Cons c s)
  show ?case
  proof (cases "prefix t (c # s)")
    case True
    then show ?thesis by (rule prefix_imp_sublist)
  next
    case False
    then have "Index s t \<noteq> None" using Cons.prems by auto
    then have "sublist t s" by (rule Cons.IH)
    then show ?thesis by (simp add: sublist_Cons_right)
  qed
qed

lemma sublist_Index: "sublist t s \<Longrightarrow> Index s t \<noteq> None"
proof (induction s)
  case Nil
  then show ?case by simp
next
  case (Cons c s)
  show ?case
  proof (cases "prefix t (c # s)")
    case True
    then show ?thesis by simp
  next
    case False
    with Cons.prems have "sublist t s" by (simp add: sublist_Cons_right)
    then show ?thesis using Cons.IH by auto
  qed
qed

lemma Contains_sublist: "Contains s t = sublist t s"
  unfolding Contains_def using Index_sublist sublist_Index by blast

lemma suffix_trimLeftSpace: "suffix (trimLeftSpace s) s"
proof (induction s rule: trimLeftSpace.induct)
  case 1
  show ?case by simp
next
  case (2 c s)
  show ?case
  proof (cases "spaceWidth (c # s)")
    case 0
    then show ?thesis by simp
  next
    case (Suc k)
    with 2 have "suffix (trimLeftSpace (drop k s)) (drop k s)" by simp
    then have "suffix (trimLeftSpace (drop k s)) s"
      using suffix_drop suffix_order.trans by blast
    then show ?thesis using Suc by (simp add: suffix_ConsI)
  qed
qed

lemma suffix_trimLeftSpaceRev: "suffix (trimLeftSpaceRev s) s"
proof (induction s rule: trimLeftSpaceRev.induct)
  case 1
  show ?case by simp
next
  case (2 c s)
  show ?case
  proof (cases "spaceWidthRev (c # s)")
    case 0
    then show ?thesis by simp
  next
    case (Suc k)
    with 2 have "suffix (trimLeftSpaceRev (drop k s)) (drop k s)" by simp
    then have "suffix (trimLeftSpaceRev (drop k s)) s"
      using suffix_drop suffix_order.trans by blast
    then show ?thesis using Suc by (simp add: suffix_ConsI)
  qed
qed

lemma sublist_TrimSpace: "sublist (TrimSpace s) s"
proof -
  have "prefix (trimRightSpace (trimLeftSpace s)) (trimLeftSpace s)"
    unfolding trimRightSpace_def
    using suffix_trimLeftSpaceRev [of "rev (trimLeftSpace s)"]
    by (simp add: suffix_to_prefix)
  then have "sublist (TrimSpace s) (trimLeftSpace s)"
    unfolding TrimSpace_def by (rule prefix_imp_sublist)
  moreover have "sublist (trimLeftSpace s) s"
    using suffix_trimLeftSpace by (rule suffix_imp_sublist)
  ultimately show ?thesis by (rule sublist_trans)
qed

lemma Contains_TrimSpace: "Contains (TrimSpace s) t \<Longrightarrow> Contains s t"
  unfolding Contains_sublist using sublist_TrimSpace sublist_trans by blast

lemma extractTag_between:
  "extractTag line tag \<noteq> [] \<Longrightarrow>
     \<exists>i j. Index line (''<'' @ tag @ ''>'') = Some i
       \<and> Index (drop (i + length tag + 2) line) (''</'' @ tag @ ''>'') = Some j
       \<and> extractTag line tag = take j (drop (i + length tag + 2) line)"
  by (auto simp: extractTag_def Let_def slice_def add.commute split: option.splits)

lemma extractTag_Contains:
  "extractTag line tag \<noteq> [] \<Longrightarrow>
     Contains line (''<'' @ tag @ ''>'') \<and> Contains line (''</'' @ tag @ ''>'')"
proof -
  assume "extractTag line tag \<noteq> []"
  from extractTag_between [OF this] obtain i j
    where i: "Index line (''<'' @ tag @ ''>'') = Some i"
      and j: "Index (drop (i + length tag + 2) line) (''</'' @ tag @ ''>'') = Some j"
    by blast
  from j have "sublist (''</'' @ tag @ ''>'') (drop (i + length tag + 2) line)"
    using Index_sublist by simp
  then have "sublist (''</'' @ tag @ ''>'') line"
    using sublist_drop sublist_trans by blast
  moreover have "Contains line (''<'' @ tag @ ''>'')" using i by (simp add: Contains_def)
  ultimately show ?thesis by (simp add: Contains_sublist)
qed

lemma pomLine_state:
  "fst (pomLine b raw) =
     (if Contains (TrimSpace raw) ''<dependencies>'' then True
      else if Contains (TrimSpace raw) ''</dependencies>'' then False else b)"
  by (simp add: pomLine_def Let_def)

lemma pomLine_record:
  assumes "c \<in> set (snd (pomLine b raw))"
  shows "b \<and> \<not> Contains (TrimSpace raw) ''<dependencies>''
     \<and> \<not> Contains (TrimSpace raw) ''</dependencies>''
     \<and> Contains (TrimSpace raw) ''<artifactId>'' \<and> Contains (TrimSpace raw) ''</artifactId>''
     \<and> extractTag (TrimSpace raw) ''artifactId'' \<noteq> []
     \<and> extractTag (TrimSpace raw) ''version'' \<noteq> []
     \<and> snd (pomLine b raw)
         = [pomRecord (extractTag (TrimSpace raw) ''artifactId'')
                      (extractTag (TrimSpace raw) ''version'')]"
  using assms by (auto simp: pomLine_def Let_def pomRecord_def split: if_splits)

lemma pomLine_same_line:
  assumes "c \<in> set (snd (pomLine b raw))"
  shows "Contains raw ''<artifactId>'' \<and> Contains raw ''</artifactId>''
     \<and> Contains raw ''<version>'' \<and> Contains raw ''</version>''"
proof -
  from pomLine_record [OF assms]
  have a: "Contains (TrimSpace raw) ''<artifactId>''" "Contains (TrimSpace raw) ''</artifactId>''"
    and v: "extractTag (TrimSpace raw) ''version'' \<noteq> []"
    by blast+
  from extractTag_Contains [OF v]
  have "Contains (TrimSpace raw) ''<version>''" "Contains (TrimSpace raw) ''</version>''"
    by simp_all
  with a show ?thesis by (blast intro: Contains_TrimSpace)
qed

lemma pomLines_empty:
  "\<forall>l \<in> set ls. \<not> (Contains l ''<artifactId>'' \<and> Contains l ''<version>'') \<Longrightarrow>
     pomLines b ls = []"
proof (induction ls arbitrary: b)
  case Nil
  show ?case by simp
next
  case (Cons l ls)
  have "snd (pomLine b l) = []"
  proof (rule ccontr)
    assume "snd (pomLine b l) \<noteq> []"
    then obtain c where "c \<in> set (snd (pomLine b l))" by (cases "snd (pomLine b l)") auto
    from pomLine_same_line [OF this] Cons.prems show False by simp
  qed
  moreover have "pomLines (fst (pomLine b l)) ls = []"
    using Cons by simp
  ultimately show ?case by (simp add: case_prod_beta)
qed


text \<open>
  C6. The state after a line is true when the line contains \<open><dependencies>\<close>, else false
  when it contains \<open></dependencies>\<close>, else unchanged. A line yields a record only when
  the state is true and the same line contains \<open><artifactId>\<close>, \<open></artifactId>\<close>,
  \<open><version>\<close> and \<open></version>\<close> and both extracted texts are non-empty; the record has
  these two texts, where a non-empty extracted text is the text between the first
  opening tag and the next closing tag after it. A file in which no line holds both
  \<open><artifactId>\<close> and \<open><version>\<close> (the tags of a dependency on separate lines) yields
  no record.
\<close>

theorem pom_line:
  "fst (pomLine b raw) =
     (if Contains (TrimSpace raw) ''<dependencies>'' then True
      else if Contains (TrimSpace raw) ''</dependencies>'' then False else b)
   \<and> (c \<in> set (snd (pomLine b raw)) \<longrightarrow>
        b \<and> Contains raw ''<artifactId>'' \<and> Contains raw ''</artifactId>''
        \<and> Contains raw ''<version>'' \<and> Contains raw ''</version>''
        \<and> extractTag (TrimSpace raw) ''artifactId'' \<noteq> []
        \<and> extractTag (TrimSpace raw) ''version'' \<noteq> []
        \<and> snd (pomLine b raw)
            = [pomRecord (extractTag (TrimSpace raw) ''artifactId'')
                         (extractTag (TrimSpace raw) ''version'')])
   \<and> (extractTag line tag \<noteq> [] \<longrightarrow>
        (\<exists>i j. Index line (''<'' @ tag @ ''>'') = Some i
           \<and> Index (drop (i + length tag + 2) line) (''</'' @ tag @ ''>'') = Some j
           \<and> extractTag line tag = take j (drop (i + length tag + 2) line)))
   \<and> ((\<forall>l \<in> set (Split xmlContent [CHR 0x0A]).
          \<not> (Contains l ''<artifactId>'' \<and> Contains l ''<version>''))
        \<longrightarrow> parsePomXML xmlContent = [])"
proof (intro conjI impI)
  show "fst (pomLine b raw) =
     (if Contains (TrimSpace raw) ''<dependencies>'' then True
      else if Contains (TrimSpace raw) ''</dependencies>'' then False else b)"
    by (rule pomLine_state)
next
  assume c: "c \<in> set (snd (pomLine b raw))"
  from pomLine_record [OF c] show b
    and "extractTag (TrimSpace raw) ''artifactId'' \<noteq> []"
    and "extractTag (TrimSpace raw) ''version'' \<noteq> []"
    and "snd (pomLine b raw)
            = [pomRecord (extractTag (TrimSpace raw) ''artifactId'')
                         (extractTag (TrimSpace raw) ''version'')]"
    by blast+
  from pomLine_same_line [OF c] show "Contains raw ''<artifactId>''"
    and "Contains raw ''</artifactId>''" and "Contains raw ''<version>''"
    and "Contains raw ''</version>''"
    by blast+
next
  assume "extractTag line tag \<noteq> []"
  then show "\<exists>i j. Index line (''<'' @ tag @ ''>'') = Some i
           \<and> Index (drop (i + length tag + 2) line) (''</'' @ tag @ ''>'') = Some j
           \<and> extractTag line tag = take j (drop (i + length tag + 2) line)"
    by (rule extractTag_between)
next
  assume "\<forall>l \<in> set (Split xmlContent [CHR 0x0A]).
          \<not> (Contains l ''<artifactId>'' \<and> Contains l ''<version>'')"
  then show "parsePomXML xmlContent = []"
    unfolding parsePomXML_def by (rule pomLines_empty)
qed

theorem pom_line_witness:
  "parsePomXML demoPomSameLine
     = [\<lparr>Name = ''guava'', Version = ''31.1-jre'', Supplier = ''maven'',
          PURL = ''pkg:maven/guava@31.1-jre'', Description = []\<rparr>]
   \<and> Contains ''  <artifactId>guava</artifactId><version>31.1-jre</version>'' ''<version>''
   \<and> extractTag ''<artifactId>guava</artifactId><version>31.1-jre</version>'' ''version''
       = take 8 (drop (30 + length ''version'' + 2)
                   ''<artifactId>guava</artifactId><version>31.1-jre</version>'')
   \<and> list_all (\<lambda>l. \<not> (Contains l ''<artifactId>'' \<and> Contains l ''<version>''))
         (Split demoPom [CHR 0x0A])
   \<and> parsePomXML demoPom = []"
proof -
  let ?r = "\<lparr>Name = ''guava'', Version = ''31.1-jre'', Supplier = ''maven'',
          PURL = ''pkg:maven/guava@31.1-jre'', Description = []\<rparr>"
  let ?l = "''  <artifactId>guava</artifactId><version>31.1-jre</version>''"
  let ?t = "''<artifactId>guava</artifactId><version>31.1-jre</version>''"
  have 1: "parsePomXML demoPomSameLine = [?r]"
    by code_simp
  have "snd (pomLine True ?l) = [?r]"
    by code_simp
  then have "?r \<in> set (snd (pomLine True ?l))" by simp
  with pom_line [of True ?l ?r] have 2: "Contains ?l ''<version>''"
    by blast
  have e: "extractTag ?t ''version'' \<noteq> []"
    by code_simp
  have i: "Index ?t (''<'' @ ''version'' @ ''>'') = Some 30"
    "Index (drop (30 + length ''version'' + 2) ?t) (''</'' @ ''version'' @ ''>'') = Some 8"
    by code_simp+
  from pom_line [of _ _ _ ?t "''version''"] e obtain i' j'
    where "Index ?t (''<'' @ ''version'' @ ''>'') = Some i'"
      and "Index (drop (i' + length ''version'' + 2) ?t) (''</'' @ ''version'' @ ''>'') = Some j'"
      and "extractTag ?t ''version'' = take j' (drop (i' + length ''version'' + 2) ?t)"
    by blast
  with i have 3: "extractTag ?t ''version''
       = take 8 (drop (30 + length ''version'' + 2) ?t)"
    by (metis option.inject)
  have 4: "list_all (\<lambda>l. \<not> (Contains l ''<artifactId>'' \<and> Contains l ''<version>''))
         (Split demoPom [CHR 0x0A])"
    by code_simp
  then have "\<forall>l \<in> set (Split demoPom [CHR 0x0A]).
          \<not> (Contains l ''<artifactId>'' \<and> Contains l ''<version>'')"
    by (simp add: list_all_iff)
  with pom_line [of _ _ _ _ _ demoPom] have 5: "parsePomXML demoPom = []"
    by blast
  from 1 2 3 4 5 show ?thesis by blast
qed

lemma whiteSpace_nonempty: "w \<in> set whiteSpace \<Longrightarrow> w \<noteq> []"
  by (auto simp: whiteSpace_def)

lemma spaceWidth_0_iff: "spaceWidth s = 0 \<longleftrightarrow> (\<forall>w \<in> set whiteSpace. \<not> prefix w s)"
proof (cases "find (\<lambda>w. prefix w s) whiteSpace")
  case None
  then have "\<forall>w \<in> set whiteSpace. \<not> prefix w s" by (simp add: find_None_iff)
  then show ?thesis using None by (simp add: spaceWidth_def)
next
  case (Some w)
  then have "w \<in> set whiteSpace" "prefix w s"
    by (auto simp: find_Some_iff)
  then show ?thesis using Some whiteSpace_nonempty [of w] by (auto simp: spaceWidth_def)
qed

lemma spaceWidthRev_0_iff: "spaceWidthRev (rev s) = 0 \<longleftrightarrow> (\<forall>w \<in> set whiteSpace. \<not> suffix w s)"
proof (cases "find (\<lambda>w. prefix (rev w) (rev s)) whiteSpace")
  case None
  then have "\<forall>w \<in> set whiteSpace. \<not> suffix w s"
    by (simp add: find_None_iff suffix_to_prefix)
  then show ?thesis using None by (simp add: spaceWidthRev_def)
next
  case (Some w)
  then have "w \<in> set whiteSpace" "prefix (rev w) (rev s)"
    by (auto simp: find_Some_iff)
  then show ?thesis using Some whiteSpace_nonempty [of w]
    by (auto simp: spaceWidthRev_def suffix_to_prefix)
qed

lemma TrimSpace_spaceFree: "spaceFree f \<Longrightarrow> TrimSpace f = f"
proof -
  assume a: "spaceFree f"
  then have "spaceWidth f = 0" by (simp add: spaceWidth_0_iff spaceFree_def)
  then have l: "trimLeftSpace f = f" by (cases f) simp_all
  from a have "spaceWidthRev (rev f) = 0" by (simp add: spaceWidthRev_0_iff spaceFree_def)
  then have "trimLeftSpaceRev (rev f) = rev f" by (cases "rev f") simp_all
  then show ?thesis using l by (simp add: TrimSpace_def trimRightSpace_def)
qed

lemma fieldsFrom_spaceFree:
  "(\<forall>t. t \<noteq> [] \<and> suffix t cur \<longrightarrow> spaceWidth (t @ s) = 0) \<Longrightarrow>
     \<forall>f \<in> set (fieldsFrom cur s). spaceFree f"
proof (induction cur s rule: fieldsFrom.induct)
  case (1 cur)
  show ?case
  proof (cases "cur = []")
    case True
    then show ?thesis by (simp add: flush_def)
  next
    case False
    have "spaceFree cur"
      unfolding spaceFree_def
    proof (intro ballI conjI notI)
      fix w assume w: "w \<in> set whiteSpace" and p: "prefix w cur"
      from 1 False have "spaceWidth cur = 0" by force
      with w p show False by (simp add: spaceWidth_0_iff)
    next
      fix w assume w: "w \<in> set whiteSpace" and p: "suffix w cur"
      from 1 p whiteSpace_nonempty [OF w] have "spaceWidth w = 0" by force
      with w show False by (auto simp: spaceWidth_0_iff)
    qed
    then show ?thesis using False by (simp add: flush_def)
  qed
next
  case (2 cur c s)
  show ?case
  proof (cases "spaceWidth (c # s)")
    case 0
    have "\<forall>t. t \<noteq> [] \<and> suffix t (cur @ [c]) \<longrightarrow> spaceWidth (t @ s) = 0"
    proof (intro allI impI)
      fix t assume t: "t \<noteq> [] \<and> suffix t (cur @ [c])"
      then obtain t' where t': "t = t' @ [c]" "suffix t' cur"
        by (metis suffix_snoc append_butlast_last_id last_snoc suffix_def butlast_snoc
            suffix_bot.extremum_uniqueI)
      show "spaceWidth (t @ s) = 0"
      proof (cases "t' = []")
        case True
        then show ?thesis using 0 t' by simp
      next
        case False
        then show ?thesis using "2.prems" t' by simp
      qed
    qed
    from "2.IH"(1) [OF 0 this] 0 show ?thesis by simp
  next
    case (Suc k)
    have field: "\<forall>f \<in> set (flush cur). spaceFree f"
    proof (cases "cur = []")
      case True
      then show ?thesis by (simp add: flush_def)
    next
      case False
      have "spaceFree cur"
        unfolding spaceFree_def
      proof (intro ballI conjI notI)
        fix w assume w: "w \<in> set whiteSpace" and p: "prefix w cur"
        from "2.prems" False have "spaceWidth (cur @ c # s) = 0" by force
        moreover have "prefix w (cur @ c # s)" using p by simp
        ultimately show False using w by (simp add: spaceWidth_0_iff)
      next
        fix w assume w: "w \<in> set whiteSpace" and p: "suffix w cur"
        from "2.prems" p whiteSpace_nonempty [OF w] have "spaceWidth (w @ c # s) = 0" by force
        with w show False by (auto simp: spaceWidth_0_iff)
      qed
      then show ?thesis using False by (simp add: flush_def)
    qed
    have "\<forall>f \<in> set (fieldsFrom [] (drop k s)). spaceFree f"
      using "2.IH"(2) [OF Suc] by simp
    with field Suc show ?thesis by auto
  qed
qed

lemma Fields_TrimSpace: "f \<in> set (Fields s) \<Longrightarrow> TrimSpace f = f"
  using fieldsFrom_spaceFree [of "[]" s] by (simp add: Fields_def TrimSpace_spaceFree)

lemma prefix_require_space: "HasPrefix l ''require '' \<Longrightarrow> l \<noteq> [] \<and> Contains l '' ''"
proof -
  assume "HasPrefix l ''require ''"
  then obtain r where "l = ''require '' @ r" by (auto simp: HasPrefix_def prefix_def)
  then have "l = ''require'' @ '' '' @ r" by simp
  then have "sublist '' '' l" by (metis sublist_appendI)
  then show ?thesis using \<open>l = ''require '' @ r\<close> by (simp add: Contains_sublist)
qed

lemma goLine_candidate:
  "goLine raw = (if Contains (TrimSpace raw) '' '' then
      (case Fields (TrimSpace raw) of
         f1 # f2 # fs \<Rightarrow> [goRecord (Base f1) f2]
       | _ \<Rightarrow> [])
    else [])"
proof (cases "Contains (TrimSpace raw) '' ''")
  case False
  then have "\<not> HasPrefix (TrimSpace raw) ''require ''" using prefix_require_space by blast
  with False show ?thesis by (simp add: goLine_def)
next
  case True
  then have ne: "TrimSpace raw \<noteq> []" by (auto simp: Contains_def)
  show ?thesis
  proof (cases "Fields (TrimSpace raw)")
    case Nil
    then show ?thesis using True by (simp add: goLine_def Let_def)
  next
    case (Cons f1 r)
    show ?thesis
    proof (cases r)
      case Nil
      then show ?thesis using True Cons by (simp add: goLine_def Let_def)
    next
      case (Cons f2 fs)
      with \<open>Fields (TrimSpace raw) = f1 # r\<close>
      have F: "Fields (TrimSpace raw) = f1 # f2 # fs" by simp
      then have "TrimSpace f1 = f1" "TrimSpace f2 = f2"
        using Fields_TrimSpace [of f1 "TrimSpace raw"] Fields_TrimSpace [of f2 "TrimSpace raw"]
        by simp_all
      then show ?thesis using True ne F by (simp add: goLine_def goRecord_def Let_def)
    qed
  qed
qed


text \<open>
  C7 as amended. A line is a candidate exactly when, trimmed of surrounding white space,
  it contains a space character (U+0020); a line that starts with \<open>require \<close> always
  does. A candidate line whose trimmed text splits on white space into at least two
  fields yields exactly one record: the name is \<open>filepath.Base\<close> of the first field and
  the version is the second field. Every other line yields no record.
\<close>

theorem go_line:
  "(HasPrefix (TrimSpace raw) ''require ''
      \<or> (TrimSpace raw \<noteq> [] \<and> Contains (TrimSpace raw) '' ''))
     = Contains (TrimSpace raw) '' ''
   \<and> (Contains (TrimSpace raw) '' '' \<and> Fields (TrimSpace raw) = f1 # f2 # fs
        \<longrightarrow> goLine raw = [goRecord (Base f1) f2])
   \<and> (\<not> Contains (TrimSpace raw) '' '' \<or> length (Fields (TrimSpace raw)) < 2
        \<longrightarrow> goLine raw = [])"
proof (intro conjI impI)
  show "(HasPrefix (TrimSpace raw) ''require ''
      \<or> (TrimSpace raw \<noteq> [] \<and> Contains (TrimSpace raw) '' ''))
     = Contains (TrimSpace raw) '' ''"
    using prefix_require_space [of "TrimSpace raw"] by (auto simp: Contains_def)
next
  assume "Contains (TrimSpace raw) '' '' \<and> Fields (TrimSpace raw) = f1 # f2 # fs"
  then show "goLine raw = [goRecord (Base f1) f2]"
    by (simp add: goLine_candidate)
next
  assume "\<not> Contains (TrimSpace raw) '' '' \<or> length (Fields (TrimSpace raw)) < 2"
  then show "goLine raw = []"
    by (auto simp: goLine_candidate split: list.splits)
qed

theorem go_line_witness:
  "Contains (TrimSpace ([CHR 0x09] @ ''github.com/gin-gonic/gin v1.9.0'')) '' ''
   \<and> Fields (TrimSpace ([CHR 0x09] @ ''github.com/gin-gonic/gin v1.9.0''))
       = [''github.com/gin-gonic/gin'', ''v1.9.0'']
   \<and> goLine ([CHR 0x09] @ ''github.com/gin-gonic/gin v1.9.0'')
       = [\<lparr>Name = ''gin'', Version = ''v1.9.0'', Supplier = ''go'',
            PURL = ''pkg:go/gin@v1.9.0'', Description = []\<rparr>]
   \<and> Contains (TrimSpace ''go 1.21'') '' ''
   \<and> map Name (goLine ''go 1.21'') = [''go'']
   \<and> length (Fields (TrimSpace '')'')) < 2
   \<and> goLine '')'' = []"
proof -
  let ?l = "[CHR 0x09] @ ''github.com/gin-gonic/gin v1.9.0''"
  have 1: "Contains (TrimSpace ?l) '' ''"
    "Fields (TrimSpace ?l) = ''github.com/gin-gonic/gin'' # ''v1.9.0'' # []"
    by code_simp+
  have r: "goRecord (Base ''github.com/gin-gonic/gin'') ''v1.9.0''
       = \<lparr>Name = ''gin'', Version = ''v1.9.0'', Supplier = ''go'',
            PURL = ''pkg:go/gin@v1.9.0'', Description = []\<rparr>"
    by code_simp
  from go_line [of ?l "''github.com/gin-gonic/gin''" "''v1.9.0''" "[]"] 1
  have "goLine ?l = [goRecord (Base ''github.com/gin-gonic/gin'') ''v1.9.0'']"
    by blast
  with r have 2: "goLine ?l
       = [\<lparr>Name = ''gin'', Version = ''v1.9.0'', Supplier = ''go'',
            PURL = ''pkg:go/gin@v1.9.0'', Description = []\<rparr>]"
    by simp
  have 3: "Contains (TrimSpace ''go 1.21'') '' ''"
    "Fields (TrimSpace ''go 1.21'') = ''go'' # ''1.21'' # []"
    by code_simp+
  have b: "Base ''go'' = ''go''" by code_simp
  from go_line [of "''go 1.21''" "''go''" "''1.21''" "[]"] 3
  have "goLine ''go 1.21'' = [goRecord (Base ''go'') ''1.21'']"
    by blast
  then have 4: "map Name (goLine ''go 1.21'') = [''go'']"
    using b by (simp add: goRecord_def)
  have 5: "length (Fields (TrimSpace '')'')) < 2"
    by code_simp
  with go_line [of "'')''"] have 6: "goLine '')'' = []"
    by blast
  from 1 2 3 4 5 6 show ?thesis by simp
qed

text \<open>
  C7 as stated fails on a line whose two fields are separated by a tab: it is not empty,
  contains a white-space character and splits into two fields, yet it is no candidate
  and yields no record. And the name is not always the text after the last \<open>/\<close> of the
  first field: for \<open>example.com/mod/\<close> that text is empty, and the name is \<open>mod\<close>.
\<close>

theorem go_line_counterexample:
  "Fields (''github.com/gin-gonic/gin'' @ [CHR 0x09] @ ''v1.9.0'')
     = [''github.com/gin-gonic/gin'', ''v1.9.0'']
   \<and> goLine (''github.com/gin-gonic/gin'' @ [CHR 0x09] @ ''v1.9.0'') = []
   \<and> Fields ''example.com/mod/ v1.0.0'' = [''example.com/mod/'', ''v1.0.0'']
   \<and> map Name (goLine ''example.com/mod/ v1.0.0'') = [''mod'']"
  by code_simp


end
